theory Spec2Isabelle
  imports Complex_Main "HOL-Library.Multiset"
begin

section \<open>Numbers, identifiers and outcomes\<close>

text \<open>
  The backend stores every monetary value as a JavaScript \<^verbatim>\<open>Number\<close>, an
  IEEE 754 double.  Every finite double is a rational number, and the embedding
  represents a \<^verbatim>\<open>Number\<close> by that rational (\<^typ>\<open>rat\<close>).

  Where the code compares a computed value with its tolerance of \<^verbatim>\<open>0.01\<close>
  (in \<^verbatim>\<open>validateSplits\<close> and in the settlement loop of the balances route), the
  outcome depends on the binary rounding, so there the arithmetic is modelled
  with its rounding: an addition or subtraction yields the double nearest to the
  exact result, ties going to the even significand.  A decimal literal of the
  source denotes the double nearest to it, so \<^verbatim>\<open>0.01\<close> is not the rational
  \<open>1/100\<close> but the double just above it.  Overflow to \<^verbatim>\<open>Infinity\<close>, beyond
  \<open>2 ^ 1024\<close>, is not represented.

  In the other functions (the split quotients, the accumulation of the group
  balances, the wallet updates) an expression of the source is read as its exact
  value, which the double computed by the code approximates to within rounding.
  The places where the JavaScript arithmetic would leave the finite numbers (a
  division by zero producing \<^verbatim>\<open>NaN\<close> or \<^verbatim>\<open>Infinity\<close>) are separate outcomes
  of the model rather than HOL's \<open>x / 0 = 0\<close>; what the database library does
  with such values when they are assigned to a document is not modelled.

  A MongoDB \<^verbatim>\<open>ObjectId\<close> is modelled by the string that \<^verbatim>\<open>toString()\<close>
  returns for it; time stamps are natural numbers supplied by the caller.
\<close>

type_synonym oid = string

datatype 'a js_result = Ok 'a | Throws string | NonFinite

text \<open>
  Rounding to double precision.  For \<open>x > 0\<close>, \<open>ilog2 x\<close> is the exponent \<open>e\<close> with
  \<open>2 ^ e \<le> x < 2 ^ (e+1)\<close>, found by halving or doubling.  A double has 53
  significant bits, so between \<open>2 ^ e\<close> and \<open>2 ^ (e+1)\<close> the doubles are the
  multiples of \<open>2 ^ (e-52)\<close>; below \<open>2 ^ (-1022)\<close> they are the multiples of
  \<open>2 ^ (-1074)\<close> (gradual underflow).  \<open>to_double x\<close> is the multiple
  nearest to \<open>x\<close>, the even one of two equally near.
\<close>

function log2_up :: "rat \<Rightarrow> int" where
  "log2_up x = (if x < 2 then 0 else log2_up (x / 2) + 1)"
  by pat_completeness auto
termination log2_up
proof (relation "measure (\<lambda>x. nat \<lfloor>x\<rfloor>)")
  show "wf (measure (\<lambda>x::rat. nat \<lfloor>x\<rfloor>))" by simp
next
  fix x :: rat
  assume "\<not> x < 2"
  then have "\<lfloor>x / 2\<rfloor> < \<lfloor>x\<rfloor>" and "0 < \<lfloor>x\<rfloor>" by linarith+
  then show "(x / 2, x) \<in> measure (\<lambda>x. nat \<lfloor>x\<rfloor>)" by simp
qed

function log2_down :: "rat \<Rightarrow> int" where
  "log2_down x = (if x \<le> 0 \<or> 1 \<le> x then 0 else log2_down (x * 2) - 1)"
  by pat_completeness auto
termination log2_down
proof (relation "measure (\<lambda>x. nat \<lceil>1 / x\<rceil>)")
  show "wf (measure (\<lambda>x::rat. nat \<lceil>1 / x\<rceil>))" by simp
next
  fix x :: rat
  assume a: "\<not> (x \<le> 0 \<or> 1 \<le> x)"
  define y where "y = 1 / x"
  have y: "1 < y" "1 / (x * 2) = y / 2" using a by (simp_all add: y_def)
  have c: "2 \<le> \<lceil>y\<rceil>" using y(1) by linarith
  have "y \<le> of_int \<lceil>y\<rceil>" by linarith
  moreover have "(2::rat) \<le> of_int \<lceil>y\<rceil>"
    using c of_int_le_iff[of 2 "\<lceil>y\<rceil>", where ?'a = rat] by simp
  ultimately have "y / 2 \<le> of_int \<lceil>y\<rceil> - 1" by linarith
  then have "y / 2 \<le> of_int (\<lceil>y\<rceil> - 1)" by simp
  then have "\<lceil>y / 2\<rceil> \<le> \<lceil>y\<rceil> - 1" by (simp only: ceiling_le_iff)
  then have "\<lceil>1 / (x * 2)\<rceil> < \<lceil>1 / x\<rceil>" unfolding y(2) by (simp add: y_def)
  moreover have "0 < \<lceil>1 / x\<rceil>" using c unfolding y_def by linarith
  ultimately have "nat \<lceil>1 / (x * 2)\<rceil> < nat \<lceil>1 / x\<rceil>" by linarith
  then show "(x * 2, x) \<in> measure (\<lambda>x. nat \<lceil>1 / x\<rceil>)" by (simp only: in_measure)
qed

declare log2_up.simps [simp del] log2_down.simps [simp del]

definition ilog2 :: "rat \<Rightarrow> int" where
  "ilog2 x = (if 1 \<le> x then log2_up x else log2_down x)"

definition round_even :: "rat \<Rightarrow> int" where
  "round_even y =
     (let f = \<lfloor>y\<rfloor>; r = y - of_int f
      in if r < 1 / 2 then f else if 1 / 2 < r then f + 1 else if even f then f else f + 1)"

definition ulp_exp :: "rat \<Rightarrow> int" where
  "ulp_exp x = max (ilog2 \<bar>x\<bar> - 52) (- 1074)"

definition to_double :: "rat \<Rightarrow> rat" where
  "to_double x = of_int (round_even (x / 2 powi ulp_exp x)) * 2 powi ulp_exp x"

text \<open>
  The operators \<^verbatim>\<open>+\<close> and \<^verbatim>\<open>-\<close> on two doubles, and the literal
  \<^verbatim>\<open>0.01\<close>.  \<^verbatim>\<open>Math.abs\<close>, \<^verbatim>\<open>Math.min\<close> and the comparisons are exact on
  doubles and are modelled by \<open>\<bar>_\<bar>\<close>, \<^const>\<open>min\<close> and the order of
  \<^typ>\<open>rat\<close>.
\<close>

definition fadd :: "rat \<Rightarrow> rat \<Rightarrow> rat" where
  "fadd x y = to_double (x + y)"

definition fsub :: "rat \<Rightarrow> rat \<Rightarrow> rat" where
  "fsub x y = to_double (x - y)"

definition cent :: rat where
  "cent = to_double (1 / 100)"

section \<open>Expense model (the Expense schema, second module of models/Transaction.js)\<close>

record participant =
  p_user :: oid
  p_amount :: rat
  percentage :: rat
  shares :: rat
  settled :: bool
  settledAt :: "nat option"

record expense_settlement =
  es_from :: oid
  es_to :: oid
  es_amount :: rat
  es_settledAt :: nat

record expense =
  e_title :: string
  e_amount :: rat
  e_category :: string
  paidBy :: oid
  e_group :: "oid option"
  splitType :: string
  participants :: "participant list"
  e_status :: string
  isSettled :: bool
  e_settledAt :: "nat option"
  e_settlements :: "expense_settlement list"

text \<open>
  \<^verbatim>\<open>calculateSplits\<close>: a \<^verbatim>\<open>switch\<close> on the split type.  The equal branch
  assigns the plain quotient \<^verbatim>\<open>totalAmount / participantCount\<close> to every
  participant; the quotient is only used inside the \<^verbatim>\<open>forEach\<close>, hence only
  for a non-empty participant list.  The shares branch divides by the sum of the
  shares and the custom branch by the total amount; when that divisor is zero
  and there is a participant to assign to, the outcome is \<^const>\<open>NonFinite\<close>.
\<close>

definition calculateSplits :: "expense \<Rightarrow> expense js_result" where
  "calculateSplits e =
     (let totalAmount = e_amount e;
          participantCount = length (participants e)
      in if splitType e = ''equal'' then
           (let equalAmount = totalAmount / of_nat participantCount
            in Ok (e\<lparr>participants :=
                     map (\<lambda>p. p\<lparr>p_amount := equalAmount,
                                 percentage := 100 / of_nat participantCount\<rparr>)
                         (participants e)\<rparr>))
         else if splitType e = ''percentage'' then
           Ok (e\<lparr>participants :=
                   map (\<lambda>p. p\<lparr>p_amount := (totalAmount * percentage p) / 100\<rparr>)
                       (participants e)\<rparr>)
         else if splitType e = ''shares'' then
           (let totalShares = foldl (\<lambda>sum p. sum + shares p) 0 (participants e)
            in if totalShares = 0 \<and> participants e \<noteq> [] then NonFinite
               else Ok (e\<lparr>participants :=
                          map (\<lambda>p. p\<lparr>p_amount := (totalAmount * shares p) / totalShares,
                                      percentage := (shares p / totalShares) * 100\<rparr>)
                              (participants e)\<rparr>))
         else if splitType e = ''custom'' then
           (if totalAmount = 0 \<and> participants e \<noteq> [] then NonFinite
            else Ok (e\<lparr>participants :=
                       map (\<lambda>p. p\<lparr>percentage := (p_amount p / totalAmount) * 100\<rparr>)
                           (participants e)\<rparr>))
         else Throws ''Invalid split type'')"

text \<open>
  \<^verbatim>\<open>validateSplits\<close>: the participant amounts are added up from \<open>0\<close>, left to
  right, and the difference to the expense amount is compared with the
  tolerance \<^verbatim>\<open>0.01\<close>; sum, difference and tolerance are doubles.  The
  amounts are the values that the document holds.  In the save hook these come
  from \<^const>\<open>calculateSplits\<close>, which leaves the amounts of a custom split as
  they are and otherwise hands over exact quotients, so that there the first
  addition rounds them.
\<close>

definition validateSplits :: "expense \<Rightarrow> bool js_result" where
  "validateSplits e =
     (let totalSplitAmount = foldl (\<lambda>sum p. fadd sum (p_amount p)) 0 (participants e);
          tolerance = cent
      in if \<bar>fsub totalSplitAmount (e_amount e)\<bar> > tolerance
         then Throws ''Split amounts do not equal total expense amount''
         else Ok True)"

text \<open>
  The \<^verbatim>\<open>pre('save')\<close> hook.  \<open>isModified\<close> stands for the document's
  \<^verbatim>\<open>isModified(path)\<close>; an exception of either method is handed to
  \<^verbatim>\<open>next\<close>, which rejects the save.
\<close>

definition pre_save :: "(string \<Rightarrow> bool) \<Rightarrow> expense \<Rightarrow> expense js_result" where
  "pre_save isModified e =
     (if isModified ''amount'' \<or> isModified ''participants'' \<or> isModified ''splitType''
      then (case calculateSplits e of
              Throws msg \<Rightarrow> Throws msg
            | NonFinite \<Rightarrow> NonFinite
            | Ok e' \<Rightarrow>
                (case validateSplits e' of
                   Throws msg \<Rightarrow> Throws msg
                 | NonFinite \<Rightarrow> NonFinite
                 | Ok _ \<Rightarrow> Ok e'))
      else Ok e)"

text \<open>The participant amounts an expense carries after split calculation.\<close>

definition amounts_after :: "expense \<Rightarrow> rat list" where
  "amounts_after e =
     (case calculateSplits e of Ok e' \<Rightarrow> map p_amount (participants e') | _ \<Rightarrow> [])"

text \<open>
  What the route \<^verbatim>\<open>POST /api/expenses\<close> (the expenses router, second
  module of server.js) builds for each valid participant of a group expense, and
  the expense document around them.
\<close>

definition new_participant :: "string \<Rightarrow> nat \<Rightarrow> oid \<Rightarrow> participant" where
  "new_participant st n u =
     \<lparr>p_user = u, p_amount = 0,
      percentage = (if st = ''equal'' then 100 / of_nat n else 0),
      shares = 1, settled = False, settledAt = None\<rparr>"

definition new_group_expense :: "rat \<Rightarrow> string \<Rightarrow> oid \<Rightarrow> oid \<Rightarrow> oid list \<Rightarrow> expense" where
  "new_group_expense amt st payer gid validParticipants =
     \<lparr>e_title = ''expense'', e_amount = amt, e_category = ''Other'', paidBy = payer,
      e_group = Some gid, splitType = st,
      participants = map (new_participant st (length validParticipants)) validParticipants,
      e_status = ''pending'', isSettled = False, e_settledAt = None, e_settlements = []\<rparr>"


text \<open>A new document: every path counts as modified.\<close>

definition is_new :: "string \<Rightarrow> bool" where
  "is_new path = True"

text \<open>
  Concrete expenses, as the route would build them.  In \<open>one_cent_short\<close> the
  participant's amount has been set to \<^verbatim>\<open>0.06\<close> on the document, against a total
  of \<^verbatim>\<open>0.07\<close>, and in \<open>thirds_short\<close> each of three amounts to
  \<^verbatim>\<open>33.33\<close>, against a total of \<open>100\<close>.
\<close>

definition cent_expense :: expense where
  "cent_expense = new_group_expense cent ''custom'' ''alice'' ''g1'' [''bob'']"

definition three_way :: expense where
  "three_way = new_group_expense 100 ''equal'' ''alice'' ''g1'' [''alice'', ''bob'', ''carol'']"

definition two_way :: expense where
  "two_way = new_group_expense 101 ''equal'' ''alice'' ''g1'' [''alice'', ''bob'']"

definition four_way :: expense where
  "four_way =
     new_group_expense 100 ''equal'' ''alice'' ''g1'' [''alice'', ''bob'', ''carol'', ''dave'']"

definition one_cent_short :: expense where
  "one_cent_short =
     (new_group_expense (to_double (7 / 100)) ''custom'' ''alice'' ''g1'' [''bob''])
       \<lparr>participants := [(new_participant ''custom'' 1 ''bob'')\<lparr>p_amount := to_double (6 / 100)\<rparr>]\<rparr>"

definition thirds_short :: expense where
  "thirds_short =
     (new_group_expense 100 ''custom'' ''alice'' ''g1'' [''alice'', ''bob'', ''carol''])
       \<lparr>participants :=
          map (\<lambda>u. (new_participant ''custom'' 3 u)\<lparr>p_amount := to_double (3333 / 100)\<rparr>)
            [''alice'', ''bob'', ''carol'']\<rparr>"

section \<open>Group model (models/Group.js)\<close>

record group_member =
  m_user :: oid
  role :: string
  balance :: rat
  totalPaid :: rat
  totalOwed :: rat
  m_status :: string

record group_settlement =
  gs_from :: oid
  gs_to :: oid
  gs_amount :: rat
  gs_settledAt :: nat
  gs_note :: string

record group =
  g_name :: string
  owner :: oid
  members :: "group_member list"
  totalExpenses :: rat
  settlements :: "group_settlement list"
  lastActivity :: nat

text \<open>
  The idiom \<^verbatim>\<open>const m = xs.find(P); if (m) { m.field += v }\<close>: the first element
  that satisfies \<open>P\<close> is updated in place, and nothing happens when there is
  none.
\<close>

fun update_first :: "('a \<Rightarrow> bool) \<Rightarrow> ('a \<Rightarrow> 'a) \<Rightarrow> 'a list \<Rightarrow> 'a list" where
  "update_first P f [] = []"
| "update_first P f (x # xs) = (if P x then f x # xs else x # update_first P f xs)"

text \<open>
  One round of the \<^verbatim>\<open>expenses.forEach\<close> in \<^verbatim>\<open>calculateBalances\<close>.  The payer
  is looked up by \<^verbatim>\<open>expense.paidBy.toString()\<close>.  The owed side divides the
  expense amount by the number of participants, whatever the split type, and
  looks each entry of \<^verbatim>\<open>expense.participants\<close> up by the string that
  \<^verbatim>\<open>toString()\<close> returns for that entry.  The entries are participant
  subdocuments, whose \<^verbatim>\<open>toString\<close> belongs to the database library, so the
  function \<open>doc_toString\<close> is a parameter of the model.  The quotient is only used
  inside the loop over the participants, hence only for a non-empty list.
\<close>

definition apply_expense ::
    "(participant \<Rightarrow> string) \<Rightarrow> group_member list \<Rightarrow> expense \<Rightarrow> group_member list" where
  "apply_expense doc_toString ms expense =
     (let ms1 = update_first (\<lambda>m. m_user m = paidBy expense)
                  (\<lambda>m. m\<lparr>totalPaid := totalPaid m + e_amount expense\<rparr>) ms;
          splitAmount = e_amount expense / of_nat (length (participants expense))
      in foldl (\<lambda>ms' participantId.
                  update_first (\<lambda>m. m_user m = doc_toString participantId)
                    (\<lambda>m. m\<lparr>totalOwed := totalOwed m + splitAmount\<rparr>) ms')
           ms1 (participants expense))"

text \<open>
  \<^verbatim>\<open>calculateBalances\<close>.  \<open>found\<close> is the result of
  \<^verbatim>\<open>Expense.find({ group: this._id })\<close>: \<open>None\<close> when the query rejects, in which
  case the \<^verbatim>\<open>catch\<close> block saves the group as it is.  No route of the
  repository deletes a user, so populating \<^verbatim>\<open>members.user\<close> resolves every
  member.  The result is the group as saved.
\<close>

definition calculateBalances ::
    "(participant \<Rightarrow> string) \<Rightarrow> expense list option \<Rightarrow> group \<Rightarrow> group" where
  "calculateBalances doc_toString found g =
     (case found of
        None \<Rightarrow> g
      | Some expenses \<Rightarrow>
          (let ms0 = map (\<lambda>m. m\<lparr>totalPaid := 0, totalOwed := 0, balance := 0\<rparr>) (members g);
               ms1 = foldl (apply_expense doc_toString) ms0 expenses;
               ms2 = map (\<lambda>m. m\<lparr>balance := totalPaid m - totalOwed m\<rparr>) ms1
           in g\<lparr>members := ms2\<rparr>))"

text \<open>
  What the two loops of \<^verbatim>\<open>calculateBalances\<close> add up for one user: the amounts
  of the expenses that the user paid, and one share
  \<^verbatim>\<open>expense.amount / expense.participants.length\<close> for every participant entry
  whose string is the user's id.  Named for the statement of the result.
\<close>

definition paid_total :: "expense list \<Rightarrow> oid \<Rightarrow> rat" where
  "paid_total es u = (\<Sum>e\<leftarrow>es. if paidBy e = u then e_amount e else 0)"

definition owed_total :: "(participant \<Rightarrow> string) \<Rightarrow> expense list \<Rightarrow> oid \<Rightarrow> rat" where
  "owed_total doc_toString es u =
     (\<Sum>e\<leftarrow>es. \<Sum>p\<leftarrow>participants e.
        if doc_toString p = u then e_amount e / of_nat (length (participants e)) else 0)"

section \<open>Group routes (the groups router, second module of routes/payments.js)\<close>

datatype response = Response nat string

text \<open>
  \<^verbatim>\<open>POST /api/groups/:groupId/settle\<close>, after the membership middleware has
  loaded the group.  \<open>toUserId\<close>, \<open>amount\<close> and \<open>note\<close> are \<open>None\<close> when the request
  body lacks them; an empty \<open>toUserId\<close> and an amount of \<open>0\<close> are falsy as well.
\<close>

definition settle_route ::
    "group \<Rightarrow> oid \<Rightarrow> oid option \<Rightarrow> rat option \<Rightarrow> string option \<Rightarrow> nat \<Rightarrow> response \<times> group" where
  "settle_route g reqUser toUserId amount note now =
     (case (toUserId, amount) of
        (Some to, Some a) \<Rightarrow>
          if to = [] \<or> a = 0 \<or> a \<le> 0 then (Response 400 ''Invalid settlement data'', g)
          else
            (case (find (\<lambda>m. m_user m = reqUser) (members g),
                   find (\<lambda>m. m_user m = to) (members g)) of
               (Some fromMember, Some toMember) \<Rightarrow>
                 (let g1 = g\<lparr>settlements := settlements g @
                             [\<lparr>gs_from = reqUser, gs_to = to, gs_amount = a,
                               gs_settledAt = now,
                               gs_note = (case note of None \<Rightarrow> [] | Some n \<Rightarrow> n)\<rparr>]\<rparr>;
                      ms1 = update_first (\<lambda>m. m_user m = reqUser)
                              (\<lambda>m. m\<lparr>balance := balance m + a\<rparr>) (members g1);
                      ms2 = update_first (\<lambda>m. m_user m = to)
                              (\<lambda>m. m\<lparr>balance := balance m - a\<rparr>) ms1
                  in (Response 200 ''Settlement recorded successfully'',
                      g1\<lparr>members := ms2, lastActivity := now\<rparr>))
             | _ \<Rightarrow> (Response 400 ''Both users must be group members'', g))
      | _ \<Rightarrow> (Response 400 ''Invalid settlement data'', g))"

text \<open>
  The settlement suggestions of \<^verbatim>\<open>GET /api/groups/:groupId/balances\<close>: the
  \<^verbatim>\<open>while\<close> loop over the two index variables.  The arrays hold the member
  documents themselves, so the loop's updates of \<^verbatim>\<open>creditor.balance\<close> and
  \<^verbatim>\<open>debtor.balance\<close> are returned with the suggestions (the route's local
  array \<^verbatim>\<open>settlements\<close>).  The two updates and the two comparisons with
  \<^verbatim>\<open>0.01\<close> are in double arithmetic.
\<close>

record suggestion =
  sg_from :: oid
  sg_to :: oid
  sg_amount :: rat

function sweep ::
    "nat \<Rightarrow> nat \<Rightarrow> group_member list \<Rightarrow> group_member list \<Rightarrow> suggestion list
      \<Rightarrow> group_member list \<times> group_member list \<times> suggestion list" where
  "sweep i j creditors debtors suggestions =
     (if i < length creditors \<and> j < length debtors then
        (let creditor = creditors ! i;
             debtor = debtors ! j;
             settlementAmount = min (balance creditor) \<bar>balance debtor\<bar>;
             creditor' = creditor\<lparr>balance := fsub (balance creditor) settlementAmount\<rparr>;
             debtor' = debtor\<lparr>balance := fadd (balance debtor) settlementAmount\<rparr>
         in sweep (if \<bar>balance creditor'\<bar> < cent then i + 1 else i)
                  (if \<bar>balance debtor'\<bar> < cent then j + 1 else j)
                  (creditors[i := creditor'])
                  (debtors[j := debtor'])
                  (suggestions @ [\<lparr>sg_from = m_user debtor, sg_to = m_user creditor,
                                    sg_amount = settlementAmount\<rparr>]))
      else (creditors, debtors, suggestions))"
  by pat_completeness auto

text \<open>
  The part of the route in front of the loop: members whose balance does not
  exceed \<^verbatim>\<open>0.01\<close> in magnitude are left out, the creditors are sorted by
  descending balance and the debtors by ascending balance.  The comparators
  \<^verbatim>\<open>b.balance - a.balance\<close> and \<^verbatim>\<open>a.balance - b.balance\<close> are used for their
  sign only, and the rounded difference of two doubles has the sign of the exact
  one; JavaScript's \<^verbatim>\<open>sort\<close> is stable, as \<^const>\<open>sort_key\<close> is.
\<close>

definition suggestSettlements ::
    "group_member list \<Rightarrow> group_member list \<times> group_member list \<times> suggestion list" where
  "suggestSettlements ms =
     (let membersWithBalance = filter (\<lambda>m. \<bar>balance m\<bar> > cent) ms;
          creditors = sort_key (\<lambda>m. - balance m) (filter (\<lambda>m. balance m > 0) membersWithBalance);
          debtors = sort_key balance (filter (\<lambda>m. balance m < 0) membersWithBalance)
      in sweep 0 0 creditors debtors [])"

definition suggestedSettlements :: "group_member list \<Rightarrow> suggestion list" where
  "suggestedSettlements ms = snd (snd (suggestSettlements ms))"

text \<open>
  Carrying out one suggested transfer is recording it as a settlement: the
  payer's balance goes up by the amount and the payee's goes down, as in
  \<^const>\<open>settle_route\<close>.
\<close>

definition apply_suggestion :: "group_member list \<Rightarrow> suggestion \<Rightarrow> group_member list" where
  "apply_suggestion ms s =
     update_first (\<lambda>m. m_user m = sg_to s) (\<lambda>m. m\<lparr>balance := balance m - sg_amount s\<rparr>)
       (update_first (\<lambda>m. m_user m = sg_from s) (\<lambda>m. m\<lparr>balance := balance m + sg_amount s\<rparr>) ms)"

text \<open>Concrete groups.\<close>

definition new_member :: "oid \<Rightarrow> group_member" where
  "new_member u =
     \<lparr>m_user = u, role = ''member'', balance = 0, totalPaid = 0, totalOwed = 0,
      m_status = ''active''\<rparr>"

definition member_with :: "oid \<Rightarrow> rat \<Rightarrow> group_member" where
  "member_with u b = (new_member u)\<lparr>balance := b\<rparr>"

definition pair_group :: group where
  "pair_group =
     \<lparr>g_name = ''flat'', owner = ''alice'', members = [new_member ''alice'', new_member ''bob''],
      totalExpenses = 0, settlements = [], lastActivity = 0\<rparr>"

definition settled_pair :: group where
  "settled_pair = snd (settle_route pair_group ''alice'' (Some ''bob'') (Some 10) None 1)"

text \<open>The reset at the start of \<^verbatim>\<open>calculateBalances\<close>, named for the proofs.\<close>

definition reset_member :: "group_member \<Rightarrow> group_member" where
  "reset_member m = m\<lparr>totalPaid := 0, totalOwed := 0, balance := 0\<rparr>"

definition net_of :: "group_member \<Rightarrow> rat" where
  "net_of m = totalPaid m - totalOwed m"

text \<open>
  A rendering of a participant subdocument in the style of the library's
  \<^verbatim>\<open>inspect\<close> output, used for concrete evaluations only.
\<close>

definition render_participant :: "participant \<Rightarrow> string" where
  "render_participant p = ''{ user: '' @ p_user p @ '' }''"

section \<open>Users and transactions (models/User.js, models/Transaction.js)\<close>

record user =
  walletBalance :: rat

datatype txn_type = Income | Expense | Transfer | Settlement | Refund

datatype txn_status = Pending | Processing | Completed | Failed | Cancelled | Refunded

record txn =
  t_id :: oid
  t_type :: txn_type
  t_amount :: rat
  t_description :: string
  t_category :: string
  from_user :: oid
  from_balanceBefore :: "rat option"
  from_balanceAfter :: "rat option"
  to_user :: "oid option"
  to_balanceBefore :: rat
  to_balanceAfter :: rat
  relatedExpense :: "oid option"
  relatedGroup :: "oid option"
  t_paymentMethod :: string
  t_status :: txn_status
  processedAt :: "nat option"
  failureReason :: "string option"
  retryCount :: nat
  maxRetries :: nat

text \<open>
  The collections.  Expenses are kept as an association list, since
  \<^verbatim>\<open>calculateBalances\<close> queries all expenses of a group.
\<close>

record db =
  users :: "oid \<rightharpoonup> user"
  transactions :: "oid \<rightharpoonup> txn"
  expenses :: "(oid \<times> expense) list"
  groups :: "oid \<rightharpoonup> group"

text \<open>
  The validators that \<^verbatim>\<open>transactionSchema\<close> declares and that \<^verbatim>\<open>save()\<close>
  runs before writing: the minimum of \<^verbatim>\<open>amount\<close>, the required
  \<^verbatim>\<open>description\<close> with its maximal length, the \<^verbatim>\<open>enum\<close> lists of
  \<^verbatim>\<open>category\<close> and \<^verbatim>\<open>paymentMethod\<close>, and the required
  \<^verbatim>\<open>from.balanceBefore\<close> and \<^verbatim>\<open>from.balanceAfter\<close> (\<open>None\<close> when the
  document was built without them).  The type and the status are enumerations
  by their HOL types.
\<close>

definition transaction_categories :: "string list" where
  "transaction_categories =
     [''Food'', ''Transportation'', ''Shopping'', ''Entertainment'', ''Healthcare'',
      ''Housing'', ''Utilities'', ''Travel'', ''Education'', ''Work'', ''Salary'',
      ''Investment'', ''Gift'', ''Other'']"

definition payment_methods :: "string list" where
  "payment_methods =
     [''wallet'', ''bank_transfer'', ''upi'', ''credit_card'', ''debit_card'', ''cash'']"

definition valid_txn :: "txn \<Rightarrow> bool" where
  "valid_txn t \<longleftrightarrow>
     1 / 100 \<le> t_amount t \<and>
     t_description t \<noteq> [] \<and> length (t_description t) \<le> 500 \<and>
     t_category t \<in> set transaction_categories \<and>
     from_balanceBefore t \<noteq> None \<and> from_balanceAfter t \<noteq> None \<and>
     t_paymentMethod t \<in> set payment_methods"

text \<open>
  The database calls that \<^verbatim>\<open>process\<close> awaits, in program order.  A plan of
  faults says for each of them whether it rejects, and with which message; a
  rejected call leaves the database as it was.
\<close>

datatype step = SaveProcessing | UpdateFrom | UpdateTo | SaveCompleted | SaveFailed

type_synonym faults = "step \<Rightarrow> string option"

definition no_faults :: faults where
  "no_faults s = None"

text \<open>
  \<^verbatim>\<open>this.save()\<close>: validation first, then the write.  The first component
  of the result is the error thrown, if any.
\<close>

definition save_txn :: "string option \<Rightarrow> txn \<Rightarrow> db \<Rightarrow> string option \<times> db" where
  "save_txn rejects t d =
     (if \<not> valid_txn t then (Some ''Transaction validation failed'', d)
      else (case rejects of
              Some msg \<Rightarrow> (Some msg, d)
            | None \<Rightarrow> (None, d\<lparr>transactions := (transactions d)(t_id t \<mapsto> t)\<rparr>)))"

text \<open>
  \<^verbatim>\<open>User.findByIdAndUpdate(id, { $inc: { walletBalance: delta } })\<close>: resolves
  without any change when no user has this id.
\<close>

definition inc_walletBalance :: "string option \<Rightarrow> oid \<Rightarrow> rat \<Rightarrow> db \<Rightarrow> string option \<times> db" where
  "inc_walletBalance rejects uid delta d =
     (case rejects of
        Some msg \<Rightarrow> (Some msg, d)
      | None \<Rightarrow>
          (case users d uid of
             None \<Rightarrow> (None, d)
           | Some u \<Rightarrow>
               (None, d\<lparr>users := (users d)(uid \<mapsto> u\<lparr>walletBalance := walletBalance u + delta\<rparr>)\<rparr>)))"

text \<open>The balance updates in the \<^verbatim>\<open>try\<close> block of \<^verbatim>\<open>process\<close>.\<close>

definition update_balances :: "faults \<Rightarrow> txn \<Rightarrow> db \<Rightarrow> string option \<times> db" where
  "update_balances fl t d =
     (if t_type t = Transfer \<and> to_user t \<noteq> None then
        (case inc_walletBalance (fl UpdateFrom) (from_user t) (- t_amount t) d of
           (Some msg, d1) \<Rightarrow> (Some msg, d1)
         | (None, d1) \<Rightarrow> inc_walletBalance (fl UpdateTo) (the (to_user t)) (t_amount t) d1)
      else if t_type t = Expense then
        inc_walletBalance (fl UpdateFrom) (from_user t) (- t_amount t) d
      else if t_type t = Income then
        inc_walletBalance (fl UpdateFrom) (from_user t) (t_amount t) d
      else (None, d))"

text \<open>
  The \<^verbatim>\<open>catch\<close> block of \<^verbatim>\<open>process\<close>: the document is marked failed and
  saved, and the error is thrown again (or the error of that save, when it
  rejects).  The result is the thrown error or the returned document, the
  document in memory, and the database.
\<close>

definition process_catch ::
    "faults \<Rightarrow> string \<Rightarrow> txn \<Rightarrow> db \<Rightarrow> (string + txn) \<times> txn \<times> db" where
  "process_catch fl msg t d =
     (let t' = t\<lparr>t_status := Failed, failureReason := Some msg, retryCount := retryCount t + 1\<rparr>
      in (case save_txn (fl SaveFailed) t' d of
            (Some msg', d') \<Rightarrow> (Inl msg', t', d')
          | (None, d') \<Rightarrow> (Inl msg, t', d')))"

definition process :: "faults \<Rightarrow> nat \<Rightarrow> txn \<Rightarrow> db \<Rightarrow> (string + txn) \<times> txn \<times> db" where
  "process fl now t d =
     (let t1 = t\<lparr>t_status := Processing\<rparr>
      in (case save_txn (fl SaveProcessing) t1 d of
            (Some msg, d1) \<Rightarrow> process_catch fl msg t1 d1
          | (None, d1) \<Rightarrow>
              (case update_balances fl t1 d1 of
                 (Some msg, d2) \<Rightarrow> process_catch fl msg t1 d2
               | (None, d2) \<Rightarrow>
                   (let t2 = t1\<lparr>t_status := Completed, processedAt := Some now\<rparr>
                    in (case save_txn (fl SaveCompleted) t2 d2 of
                          (Some msg, d3) \<Rightarrow> process_catch fl msg t2 d3
                        | (None, d3) \<Rightarrow> (Inr t2, t2, d3))))))"

definition retry :: "faults \<Rightarrow> nat \<Rightarrow> txn \<Rightarrow> db \<Rightarrow> (string + txn) \<times> txn \<times> db" where
  "retry fl now t d =
     (if retryCount t \<ge> maxRetries t then (Inl ''Maximum retry limit reached'', t, d)
      else if t_status t \<noteq> Failed then (Inl ''Only failed transactions can be retried'', t, d)
      else process fl now t d)"

section \<open>Transaction routes (routes/transactions.js)\<close>

text \<open>
  A route is a function from the request and the database to the response
  (status code and \<^verbatim>\<open>message\<close>) and the database afterwards.  The fault plan
  is the one handed to \<^verbatim>\<open>process\<close>; the route's own queries are taken to
  resolve, and a schema violation at \<^verbatim>\<open>save()\<close> reaches the outer
  \<^verbatim>\<open>catch\<close> (status 500).  \<open>reqUser\<close> is the authenticated user's id and
  \<open>newId\<close> the id of the document the route creates.
\<close>

definition retry_route :: "faults \<Rightarrow> nat \<Rightarrow> oid \<Rightarrow> oid \<Rightarrow> db \<Rightarrow> response \<times> db" where
  "retry_route fl now reqUser transactionId d =
     (case transactions d transactionId of
        None \<Rightarrow> (Response 404 ''Transaction not found'', d)
      | Some transaction \<Rightarrow>
          if from_user transaction \<noteq> reqUser then
            (Response 403 ''Only transaction creator can retry'', d)
          else if t_status transaction \<noteq> Failed then
            (Response 400 ''Only failed transactions can be retried'', d)
          else if retryCount transaction \<ge> maxRetries transaction then
            (Response 400 ''Maximum retry limit reached'', d)
          else
            (case retry fl now transaction d of
               (Inr _, _, d') \<Rightarrow> (Response 200 ''Transaction retried successfully'', d')
             | (Inl _, _, d') \<Rightarrow> (Response 400 ''Transaction retry failed'', d')))"

definition cancel_route :: "oid \<Rightarrow> oid \<Rightarrow> db \<Rightarrow> response \<times> db" where
  "cancel_route reqUser transactionId d =
     (case transactions d transactionId of
        None \<Rightarrow> (Response 404 ''Transaction not found'', d)
      | Some transaction \<Rightarrow>
          if from_user transaction \<noteq> reqUser then
            (Response 403 ''Only transaction creator can cancel'', d)
          else if t_status transaction \<notin> {Pending, Processing} then
            (Response 400 ''Only pending or processing transactions can be cancelled'', d)
          else
            (case save_txn None (transaction\<lparr>t_status := Cancelled\<rparr>) d of
               (Some _, d') \<Rightarrow> (Response 500 ''Failed to cancel transaction'', d')
             | (None, d') \<Rightarrow> (Response 200 ''Transaction cancelled successfully'', d')))"

text \<open>
  \<^verbatim>\<open>POST /api/transactions\<close>.  \<open>to\<close> is \<open>None\<close> when the body has no
  \<^verbatim>\<open>to\<close> object, and \<open>Some None\<close> when that object names no user; reading
  \<^verbatim>\<open>to.user\<close> of a missing object throws.  A missing category takes the
  schema's default.  An error of \<^verbatim>\<open>process\<close> is logged and the request still
  answers 201.
\<close>

definition create_transaction ::
    "faults \<Rightarrow> nat \<Rightarrow> oid \<Rightarrow> oid \<Rightarrow> txn_type \<Rightarrow> rat \<Rightarrow> string \<Rightarrow> string option
      \<Rightarrow> oid option option \<Rightarrow> string \<Rightarrow> db \<Rightarrow> response \<times> db" where
  "create_transaction fl now newId reqUser type amount description category to paymentMethod d =
     (case users d reqUser of
        None \<Rightarrow> (Response 500 ''Failed to create transaction'', d)
      | Some fromUser \<Rightarrow>
          if type \<in> {Expense, Transfer} \<and> walletBalance fromUser < amount then
            (Response 400 ''Insufficient wallet balance'', d)
          else if type = Transfer \<and> to = None then
            (Response 500 ''Failed to create transaction'', d)
          else if type = Transfer \<and>
                  (case to of Some (Some u) \<Rightarrow> users d u = None | _ \<Rightarrow> False) then
            (Response 404 ''Recipient not found'', d)
          else
            (let toUser = (if type = Transfer
                           then (case to of Some (Some u) \<Rightarrow> users d u | _ \<Rightarrow> None)
                           else None);
                 transaction =
                   \<lparr>t_id = newId, t_type = type, t_amount = amount,
                    t_description = description,
                    t_category = (case category of None \<Rightarrow> ''Other'' | Some c \<Rightarrow> c),
                    from_user = reqUser,
                    from_balanceBefore = Some (walletBalance fromUser),
                    from_balanceAfter =
                      Some (if type = Income then walletBalance fromUser + amount
                            else walletBalance fromUser - amount),
                    to_user = (case to of Some (Some u) \<Rightarrow> Some u | _ \<Rightarrow> None),
                    to_balanceBefore =
                      (case (to, toUser) of (Some _, Some r) \<Rightarrow> walletBalance r | _ \<Rightarrow> 0),
                    to_balanceAfter =
                      (case (to, toUser) of (Some _, Some r) \<Rightarrow> walletBalance r + amount | _ \<Rightarrow> 0),
                    relatedExpense = None, relatedGroup = None,
                    t_paymentMethod = paymentMethod, t_status = Pending,
                    processedAt = None, failureReason = None,
                    retryCount = 0, maxRetries = 3\<rparr>
             in (case save_txn None transaction d of
                   (Some _, d1) \<Rightarrow> (Response 500 ''Failed to create transaction'', d1)
                 | (None, d1) \<Rightarrow>
                     (case process fl now transaction d1 of
                        (_, _, d2) \<Rightarrow> (Response 201 ''Transaction created successfully'', d2)))))"

section \<open>Payment routes (routes/payments.js)\<close>

text \<open>\<^verbatim>\<open>POST /api/payments/send-money\<close>.\<close>

definition send_money ::
    "faults \<Rightarrow> nat \<Rightarrow> oid \<Rightarrow> oid \<Rightarrow> oid \<Rightarrow> rat \<Rightarrow> string \<Rightarrow> string \<Rightarrow> db \<Rightarrow> response \<times> db" where
  "send_money fl now newId reqUser recipientId amount description paymentMethod d =
     (case users d recipientId of
        None \<Rightarrow> (Response 404 ''Recipient not found'', d)
      | Some recipient \<Rightarrow>
          if recipientId = reqUser then (Response 400 ''Cannot send money to yourself'', d)
          else
            (case users d reqUser of
               None \<Rightarrow> (Response 500 ''Failed to send money'', d)
             | Some sender \<Rightarrow>
                 if walletBalance sender < amount then
                   (Response 400 ''Insufficient wallet balance'', d)
                 else
                   (let transaction =
                          \<lparr>t_id = newId, t_type = Transfer, t_amount = amount,
                           t_description = description, t_category = ''Transfer'',
                           from_user = reqUser,
                           from_balanceBefore = Some (walletBalance sender),
                           from_balanceAfter = Some (walletBalance sender - amount),
                           to_user = Some recipientId,
                           to_balanceBefore = walletBalance recipient,
                           to_balanceAfter = walletBalance recipient + amount,
                           relatedExpense = None, relatedGroup = None,
                           t_paymentMethod = paymentMethod, t_status = Pending,
                           processedAt = None, failureReason = None,
                           retryCount = 0, maxRetries = 3\<rparr>
                    in (case save_txn None transaction d of
                          (Some _, d1) \<Rightarrow> (Response 500 ''Failed to send money'', d1)
                        | (None, d1) \<Rightarrow>
                            (case process fl now transaction d1 of
                               (Inr _, _, d2) \<Rightarrow> (Response 201 ''Money sent successfully'', d2)
                             | (Inl _, _, d2) \<Rightarrow> (Response 400 ''Payment processing failed'', d2))))))"

text \<open>Concrete users, transactions and fault plans.\<close>

definition wallet_of :: "db \<Rightarrow> oid \<Rightarrow> rat option" where
  "wallet_of d u = map_option walletBalance (users d u)"

definition bank :: db where
  "bank =
     \<lparr>users = map_of [(''alice'', \<lparr>walletBalance = 100\<rparr>), (''bob'', \<lparr>walletBalance = 50\<rparr>)],
      transactions = Map.empty, expenses = [], groups = Map.empty\<rparr>"

definition rent_transfer :: txn where
  "rent_transfer =
     \<lparr>t_id = ''t1'', t_type = Transfer, t_amount = 30, t_description = ''rent'',
      t_category = ''Housing'', from_user = ''alice'',
      from_balanceBefore = Some 100, from_balanceAfter = Some 70,
      to_user = Some ''bob'', to_balanceBefore = 50, to_balanceAfter = 80,
      relatedExpense = None, relatedGroup = None, t_paymentMethod = ''wallet'',
      t_status = Pending, processedAt = None, failureReason = None,
      retryCount = 0, maxRetries = 3\<rparr>"

definition credit_fails :: faults where
  "credit_fails s = (if s = UpdateTo then Some ''write conflict'' else None)"

definition exhausted_transfer :: txn where
  "exhausted_transfer =
     rent_transfer\<lparr>t_status := Failed, failureReason := Some ''write conflict'', retryCount := 3\<rparr>"

definition ledger :: db where
  "ledger = bank\<lparr>transactions := map_of [(''t1'', exhausted_transfer)]\<rparr>"

text \<open>
  \<^verbatim>\<open>POST /api/payments/settle-expense\<close>, second half: what the route does
  after \<^verbatim>\<open>transaction.process()\<close> has returned.  The caller's share is marked
  settled only for the full amount; the settlement is appended to the expense's
  history; the expense is saved, which runs the \<^verbatim>\<open>pre('save')\<close> hook with
  \<^verbatim>\<open>participants\<close> modified exactly when the flag was set; an exception there
  is caught with the processing errors.  A group expense then recomputes the
  balances of its group from the group's expenses.
\<close>

definition record_settlement ::
    "(participant \<Rightarrow> string) \<Rightarrow> nat \<Rightarrow> oid \<Rightarrow> oid \<Rightarrow> expense \<Rightarrow> participant \<Rightarrow> rat \<Rightarrow> db
      \<Rightarrow> (response \<times> db) js_result" where
  "record_settlement doc_toString now reqUser expenseId expense userParticipation settlementAmount d =
     (let full = (settlementAmount = p_amount userParticipation);
          ps = (if full
                then update_first (\<lambda>p. p_user p = reqUser)
                       (\<lambda>p. p\<lparr>settled := True, settledAt := Some now\<rparr>) (participants expense)
                else participants expense);
          expense1 = expense\<lparr>participants := ps,
                       e_settlements := e_settlements expense @
                         [\<lparr>es_from = reqUser, es_to = paidBy expense,
                           es_amount = settlementAmount, es_settledAt = now\<rparr>]\<rparr>;
          allSettled = list_all (\<lambda>p. settled p \<or> p_user p = paidBy expense) ps;
          expense2 = (if allSettled
                      then expense1\<lparr>isSettled := True, e_settledAt := Some now,
                                    e_status := ''settled''\<rparr>
                      else expense1)
      in (case pre_save (\<lambda>path. path = ''participants'' \<and> full) expense2 of
            Throws msg \<Rightarrow> Ok (Response 400 ''Settlement processing failed'', d)
          | NonFinite \<Rightarrow> NonFinite
          | Ok expense3 \<Rightarrow>
              (let d1 = d\<lparr>expenses :=
                          map (\<lambda>(k, e). if k = expenseId then (k, expense3) else (k, e))
                            (expenses d)\<rparr>;
                   d2 = (case e_group expense of
                           None \<Rightarrow> d1
                         | Some gid \<Rightarrow>
                             (case groups d1 gid of
                                None \<Rightarrow> d1
                              | Some g \<Rightarrow>
                                  d1\<lparr>groups := (groups d1)
                                     (gid \<mapsto> calculateBalances doc_toString
                                        (Some (map snd (filter (\<lambda>(k, e). e_group e = Some gid)
                                                          (expenses d1)))) g)\<rparr>))
               in Ok (Response 201 ''Expense settled successfully'', d2))))"

text \<open>
  The route itself.  \<open>amount\<close> is \<open>None\<close> when the body has none; a missing or zero
  amount stands for the caller's whole share.  The settlement transaction is built
  with the user and the account of \<^verbatim>\<open>from\<close> and \<^verbatim>\<open>to\<close> only, hence without
  \<^verbatim>\<open>from.balanceBefore\<close> and \<^verbatim>\<open>from.balanceAfter\<close>.
\<close>

definition settle_expense ::
    "(participant \<Rightarrow> string) \<Rightarrow> faults \<Rightarrow> nat \<Rightarrow> oid \<Rightarrow> oid \<Rightarrow> oid \<Rightarrow> rat option \<Rightarrow> string \<Rightarrow> db
      \<Rightarrow> (response \<times> db) js_result" where
  "settle_expense doc_toString fl now newId reqUser expenseId amount paymentMethod d =
     (case map_of (expenses d) expenseId of
        None \<Rightarrow> Ok (Response 404 ''Expense not found'', d)
      | Some expense \<Rightarrow>
          (case find (\<lambda>p. p_user p = reqUser) (participants expense) of
             None \<Rightarrow> Ok (Response 403 ''You are not a participant in this expense'', d)
           | Some userParticipation \<Rightarrow>
               if settled userParticipation then
                 Ok (Response 400 ''Your part of this expense is already settled'', d)
               else
                 (let settlementAmount =
                        (case amount of
                           None \<Rightarrow> p_amount userParticipation
                         | Some a \<Rightarrow> if a = 0 then p_amount userParticipation else a)
                  in if settlementAmount > p_amount userParticipation then
                       Ok (Response 400 ''Settlement amount cannot exceed your share'', d)
                     else if paymentMethod = ''wallet'' \<and> users d reqUser = None then
                       Ok (Response 500 ''Failed to settle expense'', d)
                     else if paymentMethod = ''wallet'' \<and>
                             walletBalance (the (users d reqUser)) < settlementAmount then
                       Ok (Response 400 ''Insufficient wallet balance'', d)
                     else
                       (let transaction =
                              \<lparr>t_id = newId, t_type = Settlement, t_amount = settlementAmount,
                               t_description = ''Settlement for: '' @ e_title expense,
                               t_category = e_category expense,
                               from_user = reqUser,
                               from_balanceBefore = None, from_balanceAfter = None,
                               to_user = Some (paidBy expense),
                               to_balanceBefore = 0, to_balanceAfter = 0,
                               relatedExpense = Some expenseId,
                               relatedGroup =
                                 (case e_group expense of
                                    None \<Rightarrow> None
                                  | Some gid \<Rightarrow> if groups d gid = None then None else Some gid),
                               t_paymentMethod = paymentMethod, t_status = Pending,
                               processedAt = None, failureReason = None,
                               retryCount = 0, maxRetries = 3\<rparr>
                        in (case save_txn None transaction d of
                              (Some _, d1) \<Rightarrow> Ok (Response 500 ''Failed to settle expense'', d1)
                            | (None, d1) \<Rightarrow>
                                (case process fl now transaction d1 of
                                   (Inl _, _, d2) \<Rightarrow>
                                     Ok (Response 400 ''Settlement processing failed'', d2)
                                 | (Inr _, _, d2) \<Rightarrow>
                                     record_settlement doc_toString now reqUser expenseId expense
                                       userParticipation settlementAmount d2))))))"

text \<open>A dinner of 100 paid by alice and shared equally with bob, who has not settled.\<close>

definition dinner :: expense where
  "dinner =
     \<lparr>e_title = ''dinner'', e_amount = 100, e_category = ''Food'', paidBy = ''alice'',
      e_group = None, splitType = ''equal'',
      participants =
        [\<lparr>p_user = ''alice'', p_amount = 50, percentage = 50, shares = 1,
          settled = False, settledAt = None\<rparr>,
         \<lparr>p_user = ''bob'', p_amount = 50, percentage = 50, shares = 1,
          settled = False, settledAt = None\<rparr>],
      e_status = ''pending'', isSettled = False, e_settledAt = None, e_settlements = []\<rparr>"

definition bank_with_dinner :: db where
  "bank_with_dinner = bank\<lparr>expenses := [(''e1'', dinner)]\<rparr>"

text \<open>
  Carrying out a list of suggestions, one after the other, and the total change
  that a list of suggestions makes to the balance of one user.
\<close>

definition settle_all :: "group_member list \<Rightarrow> suggestion list \<Rightarrow> group_member list" where
  "settle_all ms ss = foldl apply_suggestion ms ss"

definition net_effect :: "suggestion list \<Rightarrow> oid \<Rightarrow> rat" where
  "net_effect ss u =
     (\<Sum>s\<leftarrow>ss. (if sg_from s = u then sg_amount s else 0) - (if sg_to s = u then sg_amount s else 0))"

text \<open>The members that the route passes on to the loop.\<close>

definition swept :: "group_member \<Rightarrow> bool" where
  "swept m \<longleftrightarrow> \<bar>balance m\<bar> > cent"

text \<open>
  Concrete balances.  \<open>tiny_debts\<close> are the doubles \<^verbatim>\<open>0.02\<close>, \<^verbatim>\<open>-0.01\<close>,
  \<^verbatim>\<open>-0.01\<close> (the double \<^verbatim>\<open>0.02\<close> is twice the double \<^verbatim>\<open>0.01\<close>);
  \<open>cent_debts\<close> are the doubles \<^verbatim>\<open>0.06\<close>, \<^verbatim>\<open>0.02\<close>, \<^verbatim>\<open>-0.05\<close>,
  \<^verbatim>\<open>-0.03\<close>.
\<close>

definition abc_balances :: "group_member list" where
  "abc_balances = [member_with ''A'' 500, member_with ''B'' (- 200), member_with ''C'' (- 300)]"

definition tiny_debts :: "group_member list" where
  "tiny_debts =
     [member_with ''A'' (2 * cent), member_with ''B'' (- cent), member_with ''C'' (- cent)]"

definition cent_debts :: "group_member list" where
  "cent_debts =
     [member_with ''A'' (to_double (6 / 100)), member_with ''B'' (to_double (2 / 100)),
      member_with ''C'' (- to_double (5 / 100)), member_with ''D'' (- to_double (3 / 100))]"

text \<open>
  The invariant of the loop for balances that are whole numbers of at most
  \<open>2 ^ 53\<close> in magnitude, on which the double arithmetic is exact: the
  members already passed are at zero, the creditors still ahead are positive and
  the debtors still ahead negative, and all balances together sum to zero.
\<close>

definition sweep_inv :: "nat \<Rightarrow> nat \<Rightarrow> group_member list \<Rightarrow> group_member list \<Rightarrow> bool" where
  "sweep_inv i j cs ds \<longleftrightarrow>
     i \<le> length cs \<and> j \<le> length ds \<and>
     (\<forall>k < length cs. balance (cs ! k) \<in> \<int> \<and> balance (cs ! k) \<le> 2 ^ 53) \<and>
     (\<forall>k < length ds. balance (ds ! k) \<in> \<int> \<and> - (2 ^ 53) \<le> balance (ds ! k)) \<and>
     (\<forall>k < length cs. if k < i then balance (cs ! k) = 0 else 0 < balance (cs ! k)) \<and>
     (\<forall>k < length ds. if k < j then balance (ds ! k) = 0 else balance (ds ! k) < 0) \<and>
     sum_list (map balance cs) + sum_list (map balance ds) = 0"

section \<open>Double arithmetic: lemmas\<close>

lemma log2_up_bounds: "1 \<le> x \<Longrightarrow> 2 powi log2_up x \<le> x \<and> x < 2 powi (log2_up x + 1)"
proof (induction x rule: log2_up.induct)
  case (1 x)
  show ?case
  proof (cases "x < 2")
    case True
    then show ?thesis using 1(2) by (subst (1 2) log2_up.simps) simp
  next
    case False
    then have "1 \<le> x / 2" by simp
    from 1(1)[OF False this] have ih: "2 powi log2_up (x / 2) \<le> x / 2" "x / 2 < 2 powi (log2_up (x / 2) + 1)"
      by simp_all
    have eq: "log2_up x = log2_up (x / 2) + 1" using False by (subst log2_up.simps) simp
    have p: "(2::rat) powi (log2_up (x / 2) + 1) = 2 powi log2_up (x / 2) * 2"
      by (simp add: power_int_add)
    have p2: "(2::rat) powi (log2_up (x / 2) + 1 + 1) = 2 powi (log2_up (x / 2) + 1) * 2"
      by (simp add: power_int_add)
    show ?thesis unfolding eq using ih p p2 by linarith
  qed
qed

lemma log2_down_bounds: "0 < x \<Longrightarrow> x < 1 \<Longrightarrow> 2 powi log2_down x \<le> x \<and> x < 2 powi (log2_down x + 1)"
proof (induction x rule: log2_down.induct)
  case (1 x)
  show ?case
  proof (cases "x * 2 < 1")
    case True
    have nb: "\<not> (x \<le> 0 \<or> 1 \<le> x)" using 1(2,3) by simp
    from 1(1)[OF nb _ True] 1(2) have ih: "2 powi log2_down (x * 2) \<le> x * 2" "x * 2 < 2 powi (log2_down (x * 2) + 1)"
      by simp_all
    have eq: "log2_down x = log2_down (x * 2) - 1" using nb by (subst log2_down.simps) simp
    have p: "(2::rat) powi (log2_down (x * 2) - 1) * 2 = 2 powi log2_down (x * 2)"
      by (simp add: power_int_minus_mult)
    have p2: "(2::rat) powi (log2_down (x * 2) - 1 + 1) * 2 = 2 powi (log2_down (x * 2) + 1)"
      by (simp add: power_int_add)
    show ?thesis unfolding eq using ih p p2 by linarith
  next
    case False
    have nb: "\<not> (x \<le> 0 \<or> 1 \<le> x)" using 1(2,3) by simp
    have "log2_down (x * 2) = 0" using False by (subst log2_down.simps) simp
    then have eq: "log2_down x = - 1" using nb by (subst log2_down.simps) simp
    show ?thesis unfolding eq using False 1(3) by (simp add: power_int_minus)
  qed
qed

lemma ilog2_bounds: "0 < x \<Longrightarrow> 2 powi ilog2 x \<le> x \<and> x < 2 powi (ilog2 x + 1)"
  using log2_up_bounds[of x] log2_down_bounds[of x] by (cases "1 \<le> x") (simp_all add: ilog2_def)

lemma round_even_of_int [simp]: "round_even (of_int n) = n"
  by (simp add: round_even_def)

lemma to_double_0 [simp]: "to_double 0 = 0"
  by (simp add: to_double_def round_even_def)

lemma to_double_dyadic:
  assumes "\<bar>m\<bar> < 2 ^ 53" and "- 1074 \<le> k"
  shows "to_double (of_int m * 2 powi k) = of_int m * 2 powi k"
proof (cases "m = 0")
  case True
  then show ?thesis by simp
next
  case False
  define x :: rat where "x = of_int m * 2 powi k"
  have ax: "\<bar>x\<bar> = of_int \<bar>m\<bar> * 2 powi k" by (simp add: x_def abs_mult power_int_abs)
  have pos: "0 < \<bar>x\<bar>" using False by (simp add: x_def)
  have "of_int \<bar>m\<bar> < (2::rat) ^ 53" using assms(1) by (metis of_int_less_numeral_power_cancel_iff)
  then have "\<bar>x\<bar> < 2 ^ 53 * 2 powi k" unfolding ax by (simp add: mult_strict_right_mono)
  also have "\<dots> = 2 powi (53 + k)" by (simp add: power_int_add)
  finally have "2 powi ilog2 \<bar>x\<bar> < (2::rat) powi (53 + k)"
    using ilog2_bounds[OF pos] by linarith
  then have "ilog2 \<bar>x\<bar> < 53 + k"
    using power_int_increasing[of "53 + k" "ilog2 \<bar>x\<bar>" "2::rat"] by (cases "ilog2 \<bar>x\<bar> < 53 + k") simp_all
  then have le: "ulp_exp x \<le> k" using assms(2) by (simp add: ulp_exp_def)
  define j where "j = nat (k - ulp_exp x)"
  have k: "k = ulp_exp x + int j" using le by (simp add: j_def)
  have pk: "(2::rat) powi k = 2 powi ulp_exp x * 2 ^ j"
    by (subst k) (simp add: power_int_add)
  have "x = of_int m * 2 powi k" by (simp add: x_def)
  also note pk
  finally have xj: "x = of_int m * (2 powi ulp_exp x * 2 ^ j)" .
  have "x / 2 powi ulp_exp x = of_int (m * 2 ^ j)" by (subst xj) simp
  then have "round_even (x / 2 powi ulp_exp x) = m * 2 ^ j" by (simp only: round_even_of_int)
  then have "to_double x = of_int (m * 2 ^ j) * 2 powi ulp_exp x" by (simp add: to_double_def)
  also have "\<dots> = x" by (subst (2) xj) simp
  finally show ?thesis by (simp add: x_def)
qed

lemma to_double_int:
  assumes "x \<in> \<int>" and "\<bar>x\<bar> \<le> 2 ^ 53"
  shows "to_double x = x"
proof -
  from assms(1) obtain m where x: "x = of_int m" by (auto elim: Ints_cases)
  show ?thesis
  proof (cases "\<bar>m\<bar> < 2 ^ 53")
    case True
    from to_double_dyadic[OF True, of 0] show ?thesis by (simp add: x)
  next
    case False
    have "\<bar>m\<bar> \<le> 2 ^ 53" using assms(2) unfolding x by (metis of_int_abs of_int_le_numeral_power_cancel_iff)
    with False have "m = 2 ^ 53 \<or> m = - (2 ^ 53)" by linarith
    then show ?thesis using to_double_dyadic[of 1 53] to_double_dyadic[of "- 1" 53] by (auto simp: x)
  qed
qed

lemma floor_divide_numeral_rat [simp]:
  "\<lfloor>(numeral a :: rat) / numeral b\<rfloor> = numeral a div numeral b"
  using floor_divide_of_int_eq[of "numeral a" "numeral b", where ?'a = rat] by simp

lemma cent_value: "cent = 5764607523034235 / 576460752303423488"
  by (simp add: cent_def to_double_def ulp_exp_def ilog2_def log2_down.simps round_even_def Let_def)


lemma cent_bounds: "0 < cent" "cent < 1" "1 / 128 \<le> cent"
  by (simp_all add: cent_value)

lemma round_even_error: "\<bar>of_int (round_even y) - y\<bar> \<le> 1 / 2"
proof -
  have "of_int \<lfloor>y\<rfloor> \<le> y" "y < of_int \<lfloor>y\<rfloor> + 1" by linarith+
  then show ?thesis by (auto simp: round_even_def Let_def)
qed

lemma round_even_nonneg: "0 \<le> y \<Longrightarrow> 0 \<le> round_even y"
  by (auto simp: round_even_def Let_def)

lemma to_double_error:
  "\<bar>to_double y - y\<bar> \<le> 2 powi ulp_exp y / 2"
proof -
  define q :: rat where "q = 2 powi ulp_exp y"
  have q: "0 < q" by (simp add: q_def zero_less_power_int)
  have "to_double y - y = (of_int (round_even (y / q)) - y / q) * q"
    using q by (simp add: to_double_def q_def algebra_simps)
  then have "\<bar>to_double y - y\<bar> = \<bar>of_int (round_even (y / q)) - y / q\<bar> * q"
    using q by (simp add: abs_mult)
  also have "\<dots> \<le> (1 / 2) * q"
    using round_even_error [of "y / q"] q by (intro mult_right_mono) simp_all
  finally show ?thesis by (simp add: q_def)
qed

lemma to_double_nonneg: "0 \<le> y \<Longrightarrow> 0 \<le> to_double y"
  by (simp add: to_double_def round_even_nonneg zero_le_power_int)

text \<open>
  A positive number whose double reaches the tolerance is rounded by less than a
  quarter of itself.
\<close>

lemma to_double_relative:
  assumes "0 < y" and "cent \<le> to_double y"
  shows "3 / 4 * y \<le> to_double y \<and> to_double y \<le> 5 / 4 * y"
proof -
  define e where "e = ilog2 y"
  have b: "2 powi e \<le> y" "y < 2 powi (e + 1)"
    using ilog2_bounds [OF assms(1)] by (simp_all add: e_def)
  have ay: "\<bar>y\<bar> = y" using assms(1) by simp
  have err: "\<bar>to_double y - y\<bar> \<le> 2 powi ulp_exp y / 2" by (rule to_double_error)
  show ?thesis
  proof (cases "- 1074 \<le> e - 52")
    case True
    then have "ulp_exp y = e - 52" by (simp add: ulp_exp_def ay e_def)
    then have "(2::rat) powi ulp_exp y = 2 powi e / 2 ^ 52"
      by (simp add: power_int_diff)
    also have "\<dots> \<le> y / 2 ^ 52" using b(1) by (simp add: divide_right_mono)
    finally have "(2::rat) powi ulp_exp y / 2 \<le> y / 2 ^ 52 / 2" by simp
    also have "\<dots> \<le> y / 4" using assms(1) by simp
    finally have "\<bar>to_double y - y\<bar> \<le> y / 4" using err by linarith
    then show ?thesis by linarith
  next
    case False
    then have u: "ulp_exp y = - 1074" by (simp add: ulp_exp_def ay e_def)
    define t :: rat where "t = 2 powi (- 1022)"
    have t0: "0 < t" by (simp add: t_def zero_less_power_int)
    from False have "e + 1 \<le> - 1022" by simp
    then have "(2::rat) powi (e + 1) \<le> t"
      unfolding t_def by (intro power_int_increasing) simp_all
    with b(2) have y: "y < t" by linarith
    have "(2::rat) powi (- 1074) \<le> t"
      unfolding t_def by (intro power_int_increasing) simp_all
    moreover have "\<bar>to_double y - y\<bar> \<le> 2 powi (- 1074) / 2" using err unfolding u .
    ultimately have "to_double y \<le> y + t / 2" by linarith
    with y t0 have "to_double y < 2 * t" by linarith
    moreover have "2 * t = 2 powi (- 1021)"
      unfolding t_def using power_int_add [of "2::rat" 1 "- 1022"] by simp
    moreover have "(2::rat) powi (- 1021) \<le> 2 powi (- 7)"
      by (intro power_int_increasing) simp_all
    moreover have "(2::rat) powi (- 7) = 1 / 128" by (simp add: power_int_minus_divide)
    ultimately have "to_double y < cent" using cent_bounds(3) by linarith
    with assms(2) show ?thesis by simp
  qed
qed

lemmas double_eval =
  to_double_def ulp_exp_def ilog2_def log2_up.simps log2_down.simps round_even_def Let_def

text \<open>
  Two ties: \<open>2 ^ 53 + 1\<close> lies half way between the doubles \<open>2 ^ 53\<close> and
  \<open>2 ^ 53 + 2\<close> and goes to the former, \<open>2 ^ 53 + 3\<close> goes up to
  \<open>2 ^ 53 + 4\<close>; and \<open>1/3\<close> goes to the double that JavaScript prints as
  \<^verbatim>\<open>0.3333333333333333\<close>.
\<close>

lemma to_double_examples:
  "to_double 9007199254740993 = 9007199254740992"
  "to_double 9007199254740995 = 9007199254740996"
  "to_double (1 / 3) = 6004799503160661 / 18014398509481984"
  by (simp_all add: double_eval)

lemma to_double_cent [simp]: "to_double cent = cent" "to_double (- cent) = - cent"
proof -
  have c: "cent = of_int 5764607523034235 * 2 powi (- 59)"
    by (simp add: cent_value power_int_minus_divide)
  have "to_double (of_int 5764607523034235 * 2 powi (- 59)) = of_int 5764607523034235 * 2 powi (- 59)"
    by (rule to_double_dyadic) simp_all
  then show "to_double cent = cent" by (simp only: c)
  have "to_double (of_int (- 5764607523034235) * 2 powi (- 59)) =
      of_int (- 5764607523034235) * 2 powi (- 59)"
    by (rule to_double_dyadic) simp_all
  then show "to_double (- cent) = - cent" by (simp add: c)
qed

lemma int_below_cent:
  assumes "x \<in> \<int>"
  shows "\<bar>x\<bar> < cent \<longleftrightarrow> x = 0"
proof
  assume "\<bar>x\<bar> < cent"
  with cent_bounds(2) have "\<bar>x\<bar> < 1" by linarith
  with assms show "x = 0" by (rule Ints_nonzero_abs_less1)
qed (simp add: cent_bounds)

lemma int_above_cent:
  assumes "x \<in> \<int>"
  shows "cent < \<bar>x\<bar> \<longleftrightarrow> x \<noteq> 0"
proof
  assume "x \<noteq> 0"
  with assms have "1 \<le> \<bar>x\<bar>" by (rule Ints_nonzero_abs_ge1)
  with cent_bounds(2) show "cent < \<bar>x\<bar>" by linarith
next
  assume "cent < \<bar>x\<bar>"
  with cent_bounds(1) show "x \<noteq> 0" by auto
qed

text \<open>
  The loop ends on every input.  Either an index advances, or neither residual is
  below the tolerance; the latter forces a positive ``debtor'' balance \<open>d\<close> below
  the creditor balance \<open>c\<close>, and then \<open>d\<close> becomes the double nearest to \<open>2 * d\<close>
  and \<open>c\<close> the double nearest to \<open>c - d\<close>, so that the quotient of the two,
  rounded up to a whole number, falls by at least one.
\<close>

lemma sweep_measure_decreases:
  assumes "0 < d" "d < c" "cent \<le> to_double (c - d)" "cent \<le> to_double (d + d)"
  shows "0 < to_double (d + d)"
    and "nat \<lceil>to_double (c - d) / to_double (d + d)\<rceil> < nat \<lceil>c / d\<rceil>"
proof -
  have u: "to_double (c - d) \<le> 5 / 4 * (c - d)"
    using to_double_relative [of "c - d"] assms by simp
  have v: "3 / 4 * (d + d) \<le> to_double (d + d)"
    using to_double_relative [of "d + d"] assms by simp
  then have v': "3 / 2 * d \<le> to_double (d + d)" by simp
  with assms(1) show pos: "0 < to_double (d + d)" by linarith
  define x where "x = c / d"
  have x: "1 < x" using assms by (simp add: x_def)
  have "to_double (c - d) / to_double (d + d) \<le> (5 / 4 * (c - d)) / (3 / 2 * d)"
    using u v' assms by (intro frac_le) simp_all
  also have "\<dots> = 5 / 6 * (x - 1)" using assms by (simp add: x_def field_simps)
  also have "\<dots> \<le> x - 1" using x by simp
  finally have "\<lceil>to_double (c - d) / to_double (d + d)\<rceil> \<le> \<lceil>x - 1\<rceil>" by (rule ceiling_mono)
  then have le: "\<lceil>to_double (c - d) / to_double (d + d)\<rceil> \<le> \<lceil>x\<rceil> - 1" by simp
  have "0 < \<lceil>x\<rceil>" using x by (simp add: less_ceiling_iff)
  with le show "nat \<lceil>to_double (c - d) / to_double (d + d)\<rceil> < nat \<lceil>c / d\<rceil>"
    unfolding x_def by linarith
qed

termination sweep
proof (relation "measures [\<lambda>(i, j, cs, ds, acc). (length cs - i) + (length ds - j),
     \<lambda>(i, j, cs, ds, acc). if i < length cs \<and> j < length ds \<and> 0 < balance (ds ! j)
        then nat \<lceil>balance (cs ! i) / balance (ds ! j)\<rceil> else 0]", goal_cases)
  case 1
  show ?case by simp
next
  case (2 i j creditors debtors suggestions creditor debtor settlementAmount creditor' debtor')
  then have lt: "i < length creditors" "j < length debtors" by simp_all
  define c where "c = balance (creditors ! i)"
  define d where "d = balance (debtors ! j)"
  have c': "balance creditor' = to_double (c - min c \<bar>d\<bar>)"
    and d': "balance debtor' = to_double (d + min c \<bar>d\<bar>)"
    using 2 by (simp_all add: c_def d_def fsub_def fadd_def)
  consider (ci) "\<bar>balance creditor'\<bar> < cent"
    | (dj) "\<bar>balance debtor'\<bar> < cent"
    | (stay) "\<not> \<bar>balance creditor'\<bar> < cent" "\<not> \<bar>balance debtor'\<bar> < cent"
    by blast
  then show ?case
  proof cases
    case ci
    with lt show ?thesis by auto
  next
    case dj
    with lt show ?thesis by auto
  next
    case stay
    have cd: "\<bar>d\<bar> < c"
    proof (rule ccontr)
      assume "\<not> \<bar>d\<bar> < c"
      then have "balance creditor' = 0" by (simp add: c' min_def)
      with stay(1) cent_bounds(1) show False by simp
    qed
    have d0: "0 < d"
    proof (rule ccontr)
      assume "\<not> 0 < d"
      with cd have "min c \<bar>d\<bar> = - d" by (simp add: min_def)
      then have "balance debtor' = 0" by (simp add: d')
      with stay(2) cent_bounds(1) show False by simp
    qed
    with cd have dc: "0 < d" "d < c" and m: "min c \<bar>d\<bar> = d" by simp_all
    have "0 \<le> to_double (c - d)" "0 \<le> to_double (d + d)"
      using dc by (simp_all add: to_double_nonneg)
    with stay have ge: "cent \<le> to_double (c - d)" "cent \<le> to_double (d + d)"
      unfolding c' d' m by simp_all
    note dec = sweep_measure_decreases [OF dc ge]
    have bc: "balance creditor' = to_double (c - d)" and bd: "balance debtor' = to_double (d + d)"
      unfolding c' d' m by simp_all
    from stay lt dc dec show ?thesis
      by (simp add: c_def[symmetric] d_def[symmetric] bc bd)
  qed
qed

declare sweep.simps [simp del]

section \<open>Split calculation: lemmas\<close>

lemma calculateSplits_keeps_amount:
  "calculateSplits e = Ok e' \<Longrightarrow> e_amount e' = e_amount e"
  by (auto simp: calculateSplits_def Let_def split: if_splits)

lemma calculateSplits_NonFinite:
  "calculateSplits e = NonFinite \<longleftrightarrow>
     participants e \<noteq> [] \<and>
     (splitType e = ''shares'' \<and> foldl (\<lambda>sum p. sum + shares p) 0 (participants e) = 0 \<or>
      splitType e = ''custom'' \<and> e_amount e = 0)"
  by (auto simp: calculateSplits_def Let_def)

lemma validateSplits_eq:
  "validateSplits e =
     (if cent < \<bar>fsub (foldl (\<lambda>sum p. fadd sum (p_amount p)) 0 (participants e)) (e_amount e)\<bar>
      then Throws ''Split amounts do not equal total expense amount'' else Ok True)"
  by (simp add: validateSplits_def Let_def)

text \<open>On whole numbers up to \<open>2 ^ 53\<close> the double sum is the exact sum.\<close>

lemma foldl_fadd_whole:
  assumes "\<forall>p \<in> set ps. p_amount p \<in> \<int> \<and> 0 \<le> p_amount p"
    and "a \<in> \<int>" "0 \<le> a" "a + sum_list (map p_amount ps) \<le> 2 ^ 53"
  shows "foldl (\<lambda>sum p. fadd sum (p_amount p)) a ps = a + sum_list (map p_amount ps)"
  using assms
proof (induction ps arbitrary: a)
  case Nil
  show ?case by simp
next
  case (Cons p ps)
  have rest: "0 \<le> sum_list (map p_amount ps)"
    using Cons.prems(1) by (intro sum_list_nonneg) auto
  have p: "p_amount p \<in> \<int>" "0 \<le> p_amount p" using Cons.prems(1) by simp_all
  have "a + p_amount p \<in> \<int>" using Cons.prems(2) p(1) by simp
  moreover have "\<bar>a + p_amount p\<bar> \<le> 2 ^ 53" using Cons.prems(3,4) p(2) rest by simp
  ultimately have step: "fadd a (p_amount p) = a + p_amount p"
    unfolding fadd_def by (rule to_double_int)
  have "foldl (\<lambda>sum p. fadd sum (p_amount p)) (a + p_amount p) ps =
      a + p_amount p + sum_list (map p_amount ps)"
  proof (rule Cons.IH)
    show "\<forall>p \<in> set ps. p_amount p \<in> \<int> \<and> 0 \<le> p_amount p" using Cons.prems(1) by simp
    show "a + p_amount p \<in> \<int>" by fact
    show "0 \<le> a + p_amount p" using Cons.prems(3) p(2) by simp
    show "a + p_amount p + sum_list (map p_amount ps) \<le> 2 ^ 53"
      using Cons.prems(4) by (simp add: add.assoc)
  qed
  then show ?case by (simp add: step add.assoc)
qed

lemma validateSplits_whole:
  assumes "e_amount e \<in> \<int>" "\<bar>e_amount e\<bar> \<le> 2 ^ 52"
    and "\<forall>p \<in> set (participants e). p_amount p \<in> \<int> \<and> 0 \<le> p_amount p"
    and "sum_list (map p_amount (participants e)) \<le> 2 ^ 52"
  shows "validateSplits e = Ok True \<longleftrightarrow> sum_list (map p_amount (participants e)) = e_amount e"
proof -
  let ?s = "sum_list (map p_amount (participants e))"
  have s0: "0 \<le> ?s" using assms(3) by (intro sum_list_nonneg) auto
  have "sum_list (map p_amount ps) \<in> \<int>" if "\<forall>p \<in> set ps. p_amount p \<in> \<int>" for ps
    using that by (induction ps) simp_all
  moreover have "\<forall>p \<in> set (participants e). p_amount p \<in> \<int>" using assms(3) by simp
  ultimately have si: "?s \<in> \<int>" by blast
  have "foldl (\<lambda>sum p. fadd sum (p_amount p)) 0 (participants e) = 0 + ?s"
    using assms(3,4) by (intro foldl_fadd_whole) simp_all
  then have sum: "foldl (\<lambda>sum p. fadd sum (p_amount p)) 0 (participants e) = ?s" by simp
  have di: "?s - e_amount e \<in> \<int>" using si assms(1) by simp
  moreover have "\<bar>?s - e_amount e\<bar> \<le> 2 ^ 53" using s0 assms(2,4) by simp
  ultimately have diff: "fsub ?s (e_amount e) = ?s - e_amount e"
    unfolding fsub_def by (rule to_double_int)
  show ?thesis
    unfolding validateSplits_eq sum diff using int_above_cent [OF di] by simp
qed




text \<open>
  The tolerance is a comparison of doubles.  A participant amount of \<^verbatim>\<open>0.06\<close>
  against a total of \<^verbatim>\<open>0.07\<close> is rejected: the difference of the two doubles
  is a double itself, and it exceeds the double \<^verbatim>\<open>0.01\<close>.
\<close>

lemma double_6_7:
  "to_double (3 / 50) = 1080863910568919 / 18014398509481984"
  "to_double (7 / 100) = 1261007895663739 / 18014398509481984"
  by (simp_all add: double_eval)

lemma one_cent_short_rejected:
  "pre_save is_new one_cent_short = Throws ''Split amounts do not equal total expense amount''"
proof -
  have a: "to_double (1080863910568919 / 18014398509481984) = 1080863910568919 / 18014398509481984"
    using to_double_dyadic [of 1080863910568919 "- 54"] by (simp add: power_int_minus_divide)
  have b: "to_double (- (45035996273705 / 4503599627370496)) = - (45035996273705 / 4503599627370496)"
    using to_double_dyadic [of "- 45035996273705" "- 52"] by (simp add: power_int_minus_divide)
  have v: "validateSplits
      (one_cent_short\<lparr>participants := map (\<lambda>p. p\<lparr>percentage := q p\<rparr>) (participants one_cent_short)\<rparr>) =
      Throws ''Split amounts do not equal total expense amount''" for q
    by (simp add: validateSplits_def Let_def one_cent_short_def new_group_expense_def
        new_participant_def double_6_7 fadd_def fsub_def a b cent_value)
  show ?thesis
    by (simp add: pre_save_def is_new_def calculateSplits_def Let_def v)
       (simp add: one_cent_short_def new_group_expense_def double_6_7)
qed

text \<open>
  Three amounts of \<^verbatim>\<open>33.33\<close> against a total of \<open>100\<close> are rejected as well:
  the three doubles add up to a double that is more than the double
  \<^verbatim>\<open>0.01\<close> below \<open>100\<close>.
\<close>

lemma double_3333:
  "to_double (3333 / 100) = 2345390243441541 / 70368744177664"
  "to_double (2345390243441541 / 70368744177664) = 2345390243441541 / 70368744177664"
  "to_double (2345390243441541 / 35184372088832) = 2345390243441541 / 35184372088832"
  "to_double (7036170730324623 / 70368744177664) = 7036170730324623 / 70368744177664"
  "to_double (- (703687441777 / 70368744177664)) = - (703687441777 / 70368744177664)"
  by (simp_all add: double_eval)

lemma thirds_short_rejected:
  "pre_save is_new thirds_short = Throws ''Split amounts do not equal total expense amount''"
proof -
  have v: "validateSplits
      (thirds_short\<lparr>participants := map (\<lambda>p. p\<lparr>percentage := q p\<rparr>) (participants thirds_short)\<rparr>) =
      Throws ''Split amounts do not equal total expense amount''" for q
    by (simp add: validateSplits_def Let_def thirds_short_def new_group_expense_def
        new_participant_def double_3333 fadd_def fsub_def cent_value)
  show ?thesis
    by (simp add: pre_save_def is_new_def calculateSplits_def Let_def v)
       (simp add: thirds_short_def new_group_expense_def)
qed

text \<open>
  Claim C2, as amended.  The equal policy performs no integer division and hands
  out no remainder: every participant, in input order, receives the same plain
  quotient of the total by the number of participants, and the percentage
  \<open>100 / n\<close>.
\<close>

theorem equal_split_plain_quotient:
  assumes "splitType e = ''equal''"
  shows "\<exists>e'. calculateSplits e = Ok e' \<and>
           map p_user (participants e') = map p_user (participants e) \<and>
           map p_amount (participants e') =
             replicate (length (participants e)) (e_amount e / of_nat (length (participants e))) \<and>
           map percentage (participants e') =
             replicate (length (participants e)) (100 / of_nat (length (participants e)))"
  using assms
  by (simp add: calculateSplits_def Let_def o_def map_replicate_const)

theorem equal_split_plain_quotient_witness:
  "splitType three_way = ''equal'' \<and>
   amounts_after three_way = [100 / 3, 100 / 3, 100 / 3]"
proof -
  have st: "splitType three_way = ''equal''"
    by (simp add: three_way_def new_group_expense_def)
  from equal_split_plain_quotient [OF st] obtain e' where
    "calculateSplits three_way = Ok e'"
    "map p_amount (participants e') =
       replicate (length (participants three_way))
         (e_amount three_way / of_nat (length (participants three_way)))"
    by blast
  then have "amounts_after three_way =
       replicate (length (participants three_way))
         (e_amount three_way / of_nat (length (participants three_way)))"
    by (simp add: amounts_after_def)
  also have "\<dots> = [100 / 3, 100 / 3, 100 / 3]"
    by (simp add: three_way_def new_group_expense_def numeral_3_eq_3)
  finally show ?thesis using st by simp
qed

text \<open>
  Claim C2 as stated fails: 100 split three ways does not give 34, 33, 33, and 101
  split two ways gives 50.5 twice rather than 51 and 50.
\<close>

theorem equal_split_counterexample:
  "amounts_after three_way \<noteq> [34, 33, 33] \<and>
   amounts_after two_way = [101 / 2, 101 / 2]"
  by (simp add: amounts_after_def calculateSplits_def Let_def three_way_def two_way_def
      new_group_expense_def new_participant_def)

section \<open>Group balances: lemmas\<close>

lemma length_update_first [simp]: "length (update_first P f xs) = length xs"
  by (induction xs) simp_all

lemma map_update_first_invariant:
  "(\<And>x. h (f x) = h x) \<Longrightarrow> map h (update_first P f xs) = map h xs"
  by (induction xs) simp_all

lemma find_update_first_same:
  "(\<And>x. P (f x) = P x) \<Longrightarrow> find P (update_first P f xs) = map_option f (find P xs)"
  by (induction xs) simp_all

lemma find_update_first_other:
  "(\<And>x. P (f x) = P x) \<Longrightarrow> (\<And>x. P x \<Longrightarrow> \<not> Q x) \<Longrightarrow>
   find P (update_first Q f xs) = find P xs"
  by (induction xs) auto

lemma sum_balance_update_first:
  "find P xs = Some y \<Longrightarrow> (\<And>x. balance (f x) = balance x + d) \<Longrightarrow>
   sum_list (map balance (update_first P f xs)) = sum_list (map balance xs) + d"
  by (induction xs) (auto split: if_splits)

lemma reset_member_eq:
  "(\<lambda>m. m\<lparr>totalPaid := 0, totalOwed := 0, balance := 0\<rparr>) = reset_member"
  by (simp add: fun_eq_iff reset_member_def)

lemma map_reset_apply_expense:
  "map reset_member (apply_expense ts ms e) = map reset_member ms"
proof -
  have owed: "map reset_member
      (foldl (\<lambda>ms' p. update_first (\<lambda>m. m_user m = ts p)
                (\<lambda>m. m\<lparr>totalOwed := totalOwed m + q\<rparr>) ms') ms' ps) = map reset_member ms'"
    for q ms' ps
    by (induction ps arbitrary: ms')
       (simp_all add: map_update_first_invariant reset_member_def)
  show ?thesis
    by (simp add: apply_expense_def Let_def owed map_update_first_invariant reset_member_def)
qed

lemma map_reset_foldl_apply_expense:
  "map reset_member (foldl (apply_expense ts) ms es) = map reset_member ms"
  by (induction es arbitrary: ms) (simp_all add: map_reset_apply_expense)

lemma members_calculateBalances:
  "members (calculateBalances ts (Some es) g) =
     map (\<lambda>m. m\<lparr>balance := totalPaid m - totalOwed m\<rparr>)
       (foldl (apply_expense ts) (map reset_member (members g)) es)"
  by (simp add: calculateBalances_def Let_def reset_member_eq)

lemma calculateBalances_reset_only:
  assumes "map reset_member (members g') = map reset_member (members g)"
  shows "members (calculateBalances ts (Some es) g') = members (calculateBalances ts (Some es) g)"
  using assms by (simp add: members_calculateBalances)

lemma map_reset_members_calculateBalances:
  "map reset_member (members (calculateBalances ts (Some es) g)) = map reset_member (members g)"
proof -
  have "map reset_member (members (calculateBalances ts (Some es) g)) =
        map reset_member (foldl (apply_expense ts) (map reset_member (members g)) es)"
    by (simp add: members_calculateBalances o_def reset_member_def)
  also have "\<dots> = map reset_member (map reset_member (members g))"
    by (rule map_reset_foldl_apply_expense)
  also have "\<dots> = map reset_member (members g)"
    by (simp add: o_def reset_member_def)
  finally show ?thesis .
qed

lemma settle_route_members_reset:
  "map reset_member (members (snd (settle_route g u to a note now))) = map reset_member (members g)"
  by (auto simp: settle_route_def Let_def map_update_first_invariant reset_member_def
      split: option.splits)

lemma apply_expense_splitType:
  "apply_expense ts ms (e\<lparr>splitType := st\<rparr>) = apply_expense ts ms e"
  by (simp add: apply_expense_def)

lemma foldl_apply_expense_splitType:
  "foldl (apply_expense ts) ms (map (\<lambda>e. e\<lparr>splitType := st e\<rparr>) es) = foldl (apply_expense ts) ms es"
  by (induction es arbitrary: ms) (simp_all add: apply_expense_splitType)

lemma update_first_distinct:
  assumes "distinct (map m_user ms)" "\<And>m. m_user (f m) = m_user m"
  shows "update_first (\<lambda>m. m_user m = u) f ms = map (\<lambda>m. if m_user m = u then f m else m) ms"
  using assms(1)
proof (induction ms)
  case Nil
  show ?case by simp
next
  case (Cons m ms)
  show ?case
  proof (cases "m_user m = u")
    case True
    with Cons.prems have "u \<notin> m_user ` set ms" by simp
    then have "\<forall>x \<in> set ms. m_user x \<noteq> u" by blast
    then have "map (\<lambda>m. if m_user m = u then f m else m) ms = ms"
      by (induction ms) simp_all
    with True show ?thesis by simp
  next
    case False
    with Cons show ?thesis by simp
  qed
qed

text \<open>
  With one member entry per user, the inner loop of \<^verbatim>\<open>calculateBalances\<close>
  charges a member one share for every participant entry that names it, and one
  round of the outer loop credits the payer and charges the participants.
\<close>

lemma owed_fold_distinct:
  assumes "distinct (map m_user ms)"
  shows "foldl (\<lambda>ms' p. update_first (\<lambda>m. m_user m = ts p)
                  (\<lambda>m. m\<lparr>totalOwed := totalOwed m + q\<rparr>) ms') ms ps =
         map (\<lambda>m. m\<lparr>totalOwed := totalOwed m + (\<Sum>p\<leftarrow>ps. if ts p = m_user m then q else 0)\<rparr>) ms"
  using assms
proof (induction ps arbitrary: ms)
  case Nil
  show ?case by (simp add: map_idI)
next
  case (Cons p ps)
  let ?f = "\<lambda>m. m\<lparr>totalOwed := totalOwed m + q\<rparr>"
  let ?ms1 = "map (\<lambda>m. if m_user m = ts p then ?f m else m) ms"
  have 1: "update_first (\<lambda>m. m_user m = ts p) ?f ms = ?ms1"
    using Cons.prems by (rule update_first_distinct) simp
  have d: "distinct (map m_user ?ms1)"
    using Cons.prems by (simp add: o_def if_distrib [of m_user] cong: if_cong)
  show ?case
    by (simp add: 1 Cons.IH [OF d] o_def)
qed

lemma apply_expense_distinct:
  assumes "distinct (map m_user ms)"
  shows "apply_expense ts ms e =
     map (\<lambda>m. m\<lparr>totalPaid := totalPaid m + paid_total [e] (m_user m),
                totalOwed := totalOwed m + owed_total ts [e] (m_user m)\<rparr>) ms"
proof -
  let ?f = "\<lambda>m. m\<lparr>totalPaid := totalPaid m + e_amount e\<rparr>"
  let ?ms1 = "map (\<lambda>m. if m_user m = paidBy e then ?f m else m) ms"
  have 1: "update_first (\<lambda>m. m_user m = paidBy e) ?f ms = ?ms1"
    using assms by (rule update_first_distinct) simp
  have d: "distinct (map m_user ?ms1)"
    using assms by (simp add: o_def if_distrib [of m_user] cong: if_cong)
  show ?thesis
    unfolding apply_expense_def Let_def 1 owed_fold_distinct [OF d]
    by (auto simp: paid_total_def owed_total_def o_def)
qed

lemma paid_total_Cons: "paid_total (e # es) u = paid_total [e] u + paid_total es u"
  by (simp add: paid_total_def)

lemma owed_total_Cons: "owed_total ts (e # es) u = owed_total ts [e] u + owed_total ts es u"
  by (simp add: owed_total_def)

lemma foldl_apply_expense_distinct:
  assumes "distinct (map m_user ms)"
  shows "foldl (apply_expense ts) ms es =
     map (\<lambda>m. m\<lparr>totalPaid := totalPaid m + paid_total es (m_user m),
                totalOwed := totalOwed m + owed_total ts es (m_user m)\<rparr>) ms"
  using assms
proof (induction es arbitrary: ms)
  case Nil
  show ?case by (simp add: paid_total_def owed_total_def map_idI)
next
  case (Cons e es)
  let ?ms1 = "map (\<lambda>m. m\<lparr>totalPaid := totalPaid m + paid_total [e] (m_user m),
                totalOwed := totalOwed m + owed_total ts [e] (m_user m)\<rparr>) ms"
  have a: "apply_expense ts ms e = ?ms1" using Cons.prems by (rule apply_expense_distinct)
  have d: "distinct (map m_user ?ms1)" using Cons.prems by (simp add: o_def)
  show ?case
    by (simp add: a Cons.IH [OF d] o_def paid_total_Cons [of e es] owed_total_Cons [of ts e es]
        add.assoc)
qed

lemma members_calculateBalances_distinct:
  assumes "distinct (map m_user (members g))"
  shows "members (calculateBalances ts (Some es) g) =
     map (\<lambda>m. m\<lparr>totalPaid := paid_total es (m_user m),
                totalOwed := owed_total ts es (m_user m),
                balance := paid_total es (m_user m) - owed_total ts es (m_user m)\<rparr>) (members g)"
proof -
  have d: "distinct (map m_user (map reset_member (members g)))"
    using assms by (simp add: o_def reset_member_def)
  show ?thesis
    by (simp add: members_calculateBalances foldl_apply_expense_distinct [OF d] o_def
        reset_member_def)
qed


lemma settled_pair_eq: "settle_route pair_group ''alice'' (Some ''bob'') (Some 10) None 1 = (Response 200 ''Settlement recorded successfully'', settled_pair)"
  by (simp add: settled_pair_def settle_route_def pair_group_def new_member_def Let_def)






section \<open>Transactions: lemmas\<close>

lemma save_txn_users: "save_txn f t d = (e, d') \<Longrightarrow> users d' = users d"
  by (auto simp: save_txn_def split: if_splits option.splits)

lemma save_txn_ok:
  "save_txn f t d = (None, d') \<Longrightarrow>
     valid_txn t \<and> f = None \<and> d' = d\<lparr>transactions := (transactions d)(t_id t \<mapsto> t)\<rparr>"
  by (auto simp: save_txn_def split: if_splits option.splits)

lemma save_txn_invalid: "\<not> valid_txn t \<Longrightarrow> save_txn f t d = (Some ''Transaction validation failed'', d)"
  by (simp add: save_txn_def)

lemma save_txn_rejected: "valid_txn t \<Longrightarrow> save_txn (Some m) t d = (Some m, d)"
  by (simp add: save_txn_def)

lemma inc_walletBalance_ok:
  "inc_walletBalance f u x d = (None, d') \<Longrightarrow>
     f = None \<and> transactions d' = transactions d \<and>
     wallet_of d' = (wallet_of d)(u := map_option (\<lambda>b. b + x) (wallet_of d u))"
  by (auto simp: inc_walletBalance_def wallet_of_def fun_eq_iff split: option.splits)

lemma process_catch_props:
  "process_catch fl msg t d = (r, t', d') \<Longrightarrow>
     (\<exists>m. r = Inl m) \<and>
     t' = t\<lparr>t_status := Failed, failureReason := Some msg, retryCount := retryCount t + 1\<rparr> \<and>
     users d' = users d"
  by (auto simp: process_catch_def Let_def split: prod.splits option.splits dest: save_txn_users)

lemma valid_txn_status [simp]: "valid_txn (t\<lparr>t_status := s\<rparr>) = valid_txn t"
  by (simp add: valid_txn_def)

lemma valid_txn_processedAt [simp]: "valid_txn (t\<lparr>processedAt := s\<rparr>) = valid_txn t"
  by (simp add: valid_txn_def)

lemma valid_txn_failureReason [simp]: "valid_txn (t\<lparr>failureReason := s\<rparr>) = valid_txn t"
  by (simp add: valid_txn_def)

lemma valid_txn_retryCount [simp]: "valid_txn (t\<lparr>retryCount := n\<rparr>) = valid_txn t"
  by (simp add: valid_txn_def)

lemma update_balances_fail_users:
  "update_balances fl t d = (e, d') \<Longrightarrow> fl UpdateFrom \<noteq> None \<Longrightarrow> d' = d"
  by (auto simp: update_balances_def inc_walletBalance_def
      split: if_splits option.splits prod.splits)

lemma update_balances_transfer:
  assumes "update_balances fl t d = (None, d')" "t_type t = Transfer" "to_user t = Some v"
    "from_user t \<noteq> v"
  shows "wallet_of d' =
           (wallet_of d)(from_user t := map_option (\<lambda>b. b - t_amount t) (wallet_of d (from_user t)),
                         v := map_option (\<lambda>b. b + t_amount t) (wallet_of d v))"
proof -
  from assms obtain d1 where
    a: "inc_walletBalance (fl UpdateFrom) (from_user t) (- t_amount t) d = (None, d1)" and
    b: "inc_walletBalance (fl UpdateTo) v (t_amount t) d1 = (None, d')"
    by (auto simp: update_balances_def split: prod.splits option.splits)
  from inc_walletBalance_ok [OF a] inc_walletBalance_ok [OF b] assms(4)
  show ?thesis by (simp add: fun_eq_iff)
qed

lemma process_catch_throws: "process_catch fl msg t d \<noteq> (Inr x, t', d')"
  by (auto dest: process_catch_props)

lemma process_cases:
  obtains
    (save_processing) m where
      "save_txn (fl SaveProcessing) (t\<lparr>t_status := Processing\<rparr>) d = (Some m, d)"
      "process fl now t d = process_catch fl m (t\<lparr>t_status := Processing\<rparr>) d"
  | (update) d1 m d2 where
      "save_txn (fl SaveProcessing) (t\<lparr>t_status := Processing\<rparr>) d = (None, d1)"
      "update_balances fl (t\<lparr>t_status := Processing\<rparr>) d1 = (Some m, d2)"
      "process fl now t d = process_catch fl m (t\<lparr>t_status := Processing\<rparr>) d2"
  | (save_completed) d1 d2 m where
      "save_txn (fl SaveProcessing) (t\<lparr>t_status := Processing\<rparr>) d = (None, d1)"
      "update_balances fl (t\<lparr>t_status := Processing\<rparr>) d1 = (None, d2)"
      "save_txn (fl SaveCompleted) (t\<lparr>t_status := Completed, processedAt := Some now\<rparr>) d2 = (Some m, d2)"
      "process fl now t d =
         process_catch fl m (t\<lparr>t_status := Completed, processedAt := Some now\<rparr>) d2"
  | (completed) d1 d2 d3 where
      "save_txn (fl SaveProcessing) (t\<lparr>t_status := Processing\<rparr>) d = (None, d1)"
      "update_balances fl (t\<lparr>t_status := Processing\<rparr>) d1 = (None, d2)"
      "save_txn (fl SaveCompleted) (t\<lparr>t_status := Completed, processedAt := Some now\<rparr>) d2 = (None, d3)"
      "process fl now t d =
         (Inr (t\<lparr>t_status := Completed, processedAt := Some now\<rparr>),
          t\<lparr>t_status := Completed, processedAt := Some now\<rparr>, d3)"
proof -
  let ?t1 = "t\<lparr>t_status := Processing\<rparr>"
  let ?t2 = "t\<lparr>t_status := Completed, processedAt := Some now\<rparr>"
  obtain e1 d1 where s1: "save_txn (fl SaveProcessing) ?t1 d = (e1, d1)"
    by (cases "save_txn (fl SaveProcessing) ?t1 d")
  show thesis
  proof (cases e1)
    case (Some m)
    with s1 have "d1 = d" by (auto simp: save_txn_def split: if_splits option.splits)
    with s1 Some show thesis
      by (intro save_processing [of m]) (simp_all add: process_def Let_def)
  next
    case None
    note e1 = this
    obtain e2 d2 where u: "update_balances fl ?t1 d1 = (e2, d2)"
      by (cases "update_balances fl ?t1 d1")
    show thesis
    proof (cases e2)
      case (Some m)
      with s1 e1 u show thesis
        by (intro update [of d1 m d2]) (simp_all add: process_def Let_def)
    next
      case None
      note e2 = this
      obtain e3 d3 where s3: "save_txn (fl SaveCompleted) ?t2 d2 = (e3, d3)"
        by (cases "save_txn (fl SaveCompleted) ?t2 d2")
      show thesis
      proof (cases e3)
        case (Some m)
        with s3 have "d3 = d2" by (auto simp: save_txn_def split: if_splits option.splits)
        with s1 e1 u e2 s3 Some show thesis
          by (intro save_completed [of d1 d2 m]) (simp_all add: process_def Let_def)
      next
        case None
        with s1 e1 u e2 s3 show thesis
          by (intro completed [of d1 d2 d3]) (simp_all add: process_def Let_def)
      qed
    qed
  qed
qed

lemma process_failure:
  assumes "process fl now t d = (Inl msg, t', d')"
  shows "t_status t' = Failed \<and> retryCount t' = retryCount t + 1 \<and> failureReason t' \<noteq> None"
proof (cases rule: process_cases [of fl t d now])
  case (save_processing m)
  with assms have "process_catch fl m (t\<lparr>t_status := Processing\<rparr>) d = (Inl msg, t', d')" by simp
  from process_catch_props [OF this] show ?thesis by simp
next
  case (update d1 m d2)
  with assms have "process_catch fl m (t\<lparr>t_status := Processing\<rparr>) d2 = (Inl msg, t', d')" by simp
  from process_catch_props [OF this] show ?thesis by simp
next
  case (save_completed d1 d2 m)
  with assms have "process_catch fl m (t\<lparr>t_status := Completed, processedAt := Some now\<rparr>) d2 =
      (Inl msg, t', d')" by simp
  from process_catch_props [OF this] show ?thesis by simp
next
  case (completed d1 d2 d3)
  with assms show ?thesis by simp
qed

lemma process_success:
  assumes "process fl now t d = (Inr x, t', d')"
  shows "x = t' \<and> t' = t\<lparr>t_status := Completed, processedAt := Some now\<rparr> \<and>
         transactions d' (t_id t) = Some t' \<and>
         (\<exists>d0 d1. wallet_of d0 = wallet_of d \<and>
            update_balances fl (t\<lparr>t_status := Processing\<rparr>) d0 = (None, d1) \<and>
            wallet_of d' = wallet_of d1)"
proof (cases rule: process_cases [of fl t d now])
  case (save_processing m)
  with assms show ?thesis by (simp add: process_catch_throws)
next
  case (update d1 m d2)
  with assms show ?thesis by (simp add: process_catch_throws)
next
  case (save_completed d1 d2 m)
  with assms show ?thesis by (simp add: process_catch_throws)
next
  case (completed d1 d2 d3)
  from save_txn_ok [OF completed(1)] have d1: "wallet_of d1 = wallet_of d"
    by (simp add: wallet_of_def fun_eq_iff)
  from save_txn_ok [OF completed(3)]
  have d3: "d3 = d2\<lparr>transactions := (transactions d2)
      (t_id t \<mapsto> t\<lparr>t_status := Completed, processedAt := Some now\<rparr>)\<rparr>"
    by simp
  then have w3: "wallet_of d3 = wallet_of d2"
    by (simp add: wallet_of_def fun_eq_iff)
  from completed(4) assms have eq: "x = t'" "t' = t\<lparr>t_status := Completed, processedAt := Some now\<rparr>"
    "d' = d3" by simp_all
  have "transactions d' (t_id t) = Some t'" by (simp add: eq d3)
  moreover have "\<exists>d0 d1. wallet_of d0 = wallet_of d \<and>
            update_balances fl (t\<lparr>t_status := Processing\<rparr>) d0 = (None, d1) \<and>
            wallet_of d' = wallet_of d1"
    using d1 completed(2) w3 eq(3) by blast
  ultimately show ?thesis using eq by simp
qed

lemma process_early_failure:
  assumes "process fl now t d = (r, t', d')" "\<not> valid_txn t \<or> fl SaveProcessing \<noteq> None"
  shows "(\<exists>msg. r = Inl msg) \<and> users d' = users d"
proof -
  have "\<exists>m. save_txn (fl SaveProcessing) (t\<lparr>t_status := Processing\<rparr>) d = (Some m, d)"
    using assms(2) by (auto simp: save_txn_def)
  then obtain m where "process fl now t d = process_catch fl m (t\<lparr>t_status := Processing\<rparr>) d"
    by (auto simp: process_def)
  with assms(1) have "process_catch fl m (t\<lparr>t_status := Processing\<rparr>) d = (r, t', d')" by simp
  from process_catch_props [OF this] show ?thesis by simp
qed

lemma process_debit_failure:
  assumes "process fl now t d = (r, t', d')" "fl UpdateFrom \<noteq> None"
  shows "users d' = users d"
proof (cases rule: process_cases [of fl t d now])
  case (save_processing m)
  with assms have "process_catch fl m (t\<lparr>t_status := Processing\<rparr>) d = (r, t', d')" by simp
  from process_catch_props [OF this] show ?thesis by simp
next
  case (update d1 m d2)
  from update_balances_fail_users [OF update(2) assms(2)] have "d2 = d1" .
  moreover from save_txn_users [OF update(1)] have "users d1 = users d" .
  moreover from update assms
  have "process_catch fl m (t\<lparr>t_status := Processing\<rparr>) d2 = (r, t', d')" by simp
  from process_catch_props [OF this] have "users d' = users d2" by simp
  ultimately show ?thesis by simp
next
  case (save_completed d1 d2 m)
  from update_balances_fail_users [OF save_completed(2) assms(2)] have "d2 = d1" .
  moreover from save_txn_users [OF save_completed(1)] have "users d1 = users d" .
  moreover from save_completed assms
  have "process_catch fl m (t\<lparr>t_status := Completed, processedAt := Some now\<rparr>) d2 = (r, t', d')"
    by simp
  from process_catch_props [OF this] have "users d' = users d2" by simp
  ultimately show ?thesis by simp
next
  case (completed d1 d2 d3)
  from update_balances_fail_users [OF completed(2) assms(2)] have "d2 = d1" .
  moreover from save_txn_users [OF completed(1)] have "users d1 = users d" .
  moreover from save_txn_users [OF completed(3)] have "users d3 = users d2" .
  moreover from completed(4) assms(1) have "d' = d3" by simp
  ultimately show ?thesis by simp
qed

text \<open>
  Claim C3, as amended.  \<^verbatim>\<open>process\<close> debits and credits in two separate
  updates.  When it returns, the transaction is completed, stamped and stored,
  and a transfer between two different users has moved the amount from the
  sender's wallet to the receiver's and touched no other wallet.  When it throws,
  the transaction is marked failed with a reason and one more retry counted.  A
  failure of the validation, of the first save or of the first update leaves
  every wallet as it was.
\<close>

theorem process_outcomes:
  assumes "process fl now t d = (r, t', d')"
  shows "(\<forall>x. r = Inr x \<longrightarrow>
            x = t' \<and> t_status t' = Completed \<and> processedAt t' = Some now \<and>
            transactions d' (t_id t) = Some t' \<and>
            (\<forall>v. t_type t = Transfer \<and> to_user t = Some v \<and> from_user t \<noteq> v \<longrightarrow>
               wallet_of d' =
                 (wallet_of d)
                   (from_user t := map_option (\<lambda>b. b - t_amount t) (wallet_of d (from_user t)),
                    v := map_option (\<lambda>b. b + t_amount t) (wallet_of d v)))) \<and>
         (\<forall>msg. r = Inl msg \<longrightarrow>
            t_status t' = Failed \<and> retryCount t' = retryCount t + 1 \<and> failureReason t' \<noteq> None) \<and>
         (\<not> valid_txn t \<or> fl SaveProcessing \<noteq> None \<longrightarrow> (\<exists>msg. r = Inl msg) \<and> users d' = users d) \<and>
         (fl UpdateFrom \<noteq> None \<longrightarrow> users d' = users d)"
proof (intro conjI allI impI)
  fix x assume r: "r = Inr x"
  with assms have p: "process fl now t d = (Inr x, t', d')" by simp
  note s = process_success [OF p]
  from s show "x = t'" "t_status t' = Completed" "processedAt t' = Some now"
    "transactions d' (t_id t) = Some t'"
    by simp_all
  fix v assume tr: "t_type t = Transfer \<and> to_user t = Some v \<and> from_user t \<noteq> v"
  from s obtain d0 d1 where w0: "wallet_of d0 = wallet_of d"
    and u: "update_balances fl (t\<lparr>t_status := Processing\<rparr>) d0 = (None, d1)"
    and w1: "wallet_of d' = wallet_of d1"
    by blast
  from update_balances_transfer [OF u] tr
  have "wallet_of d1 =
      (wallet_of d0)
        (from_user t := map_option (\<lambda>b. b - t_amount t) (wallet_of d0 (from_user t)),
         v := map_option (\<lambda>b. b + t_amount t) (wallet_of d0 v))"
    by simp
  then show "wallet_of d' =
      (wallet_of d)
        (from_user t := map_option (\<lambda>b. b - t_amount t) (wallet_of d (from_user t)),
         v := map_option (\<lambda>b. b + t_amount t) (wallet_of d v))"
    by (simp add: w0 w1)
next
  fix msg assume "r = Inl msg"
  with assms have p: "process fl now t d = (Inl msg, t', d')" by simp
  from process_failure [OF p]
  show "t_status t' = Failed" "retryCount t' = retryCount t + 1" "failureReason t' \<noteq> None"
    by simp_all
next
  assume e: "\<not> valid_txn t \<or> fl SaveProcessing \<noteq> None"
  from process_early_failure [OF assms e]
  show "\<exists>msg. r = Inl msg" "users d' = users d" by simp_all
next
  assume "fl UpdateFrom \<noteq> None"
  with assms show "users d' = users d" by (rule process_debit_failure)
qed

lemma valid_rent_transfer: "valid_txn rent_transfer"
  by (simp add: valid_txn_def rent_transfer_def transaction_categories_def payment_methods_def)

lemma rent_transfer_fields:
  "t_type rent_transfer = Transfer" "to_user rent_transfer = Some ''bob''"
  "from_user rent_transfer = ''alice''" "t_amount rent_transfer = 30"
  "t_id rent_transfer = ''t1''" "t_status rent_transfer = Pending"
  "retryCount rent_transfer = 0" "maxRetries rent_transfer = 3"
  by (simp_all add: rent_transfer_def)

lemma bank_users:
  "users bank ''alice'' = Some \<lparr>walletBalance = 100\<rparr>"
  "users bank ''bob'' = Some \<lparr>walletBalance = 50\<rparr>"
  "users bank ''zed'' = None"
  by (simp_all add: bank_def)

lemma rent_transfer_completes:
  "process no_faults 5 rent_transfer bank =
     (Inr (rent_transfer\<lparr>t_status := Completed, processedAt := Some 5\<rparr>),
      rent_transfer\<lparr>t_status := Completed, processedAt := Some 5\<rparr>,
      bank\<lparr>users := (users bank)(''alice'' \<mapsto> \<lparr>walletBalance = 70\<rparr>,
                                     ''bob'' \<mapsto> \<lparr>walletBalance = 80\<rparr>),
           transactions := (transactions bank)
             (''t1'' \<mapsto> rent_transfer\<lparr>t_status := Completed, processedAt := Some 5\<rparr>)\<rparr>)"
  by (simp add: process_def Let_def save_txn_def valid_rent_transfer update_balances_def
      inc_walletBalance_def no_faults_def rent_transfer_fields bank_users)

lemma rent_transfer_credit_fails:
  "process credit_fails 5 rent_transfer bank =
     (Inl ''write conflict'',
      rent_transfer\<lparr>t_status := Failed, failureReason := Some ''write conflict'',
                     retryCount := 1\<rparr>,
      bank\<lparr>users := (users bank)(''alice'' \<mapsto> \<lparr>walletBalance = 70\<rparr>),
           transactions := (transactions bank)
             (''t1'' \<mapsto> rent_transfer\<lparr>t_status := Failed,
                  failureReason := Some ''write conflict'', retryCount := 1\<rparr>)\<rparr>)"
  by (simp add: process_def process_catch_def Let_def save_txn_def valid_rent_transfer
      update_balances_def inc_walletBalance_def credit_fails_def rent_transfer_fields bank_users)

theorem process_outcomes_witness:
  "wallet_of (snd (snd (process no_faults 5 rent_transfer bank))) ''alice'' = Some 70 \<and>
   wallet_of (snd (snd (process no_faults 5 rent_transfer bank))) ''bob'' = Some 80 \<and>
   t_status (fst (snd (process no_faults 5 rent_transfer bank))) = Completed"
proof -
  let ?t' = "rent_transfer\<lparr>t_status := Completed, processedAt := Some 5\<rparr>"
  obtain d' where p: "process no_faults 5 rent_transfer bank = (Inr ?t', ?t', d')"
    using rent_transfer_completes by blast
  from process_outcomes [OF p]
  have st: "t_status ?t' = Completed"
    and w: "wallet_of d' =
      (wallet_of bank)
        (''alice'' := map_option (\<lambda>b. b - 30) (wallet_of bank ''alice''),
         ''bob'' := map_option (\<lambda>b. b + 30) (wallet_of bank ''bob''))"
    by (simp_all add: rent_transfer_fields)
  have "wallet_of d' ''alice'' = Some 70" "wallet_of d' ''bob'' = Some 80"
    unfolding w by (simp_all add: wallet_of_def bank_users)
  with p show ?thesis by simp
qed

text \<open>
  Claim C3 as stated fails: when the credit of the receiver rejects, the
  transaction ends failed, the sender's wallet has gone from 100 to 70 and the
  receiver's wallet is still 50.
\<close>

theorem partial_debit_counterexample:
  "t_status (fst (snd (process credit_fails 5 rent_transfer bank))) = Failed \<and>
   wallet_of bank ''alice'' = Some 100 \<and>
   wallet_of (snd (snd (process credit_fails 5 rent_transfer bank))) ''alice'' = Some 70 \<and>
   wallet_of bank ''bob'' = Some 50 \<and>
   wallet_of (snd (snd (process credit_fails 5 rent_transfer bank))) ''bob'' = Some 50"
  by (simp add: rent_transfer_credit_fails wallet_of_def bank_users)

section \<open>Retry, cancel and the balance check: theorems\<close>

lemma exhausted_transfer_fields:
  "t_status exhausted_transfer = Failed" "retryCount exhausted_transfer = 3"
  "maxRetries exhausted_transfer = 3" "from_user exhausted_transfer = ''alice''"
  by (simp_all add: exhausted_transfer_def rent_transfer_def)

lemma ledger_transactions: "transactions ledger ''t1'' = Some exhausted_transfer"
  by (simp add: ledger_def)

text \<open>
  Claim C6.  The method \<^verbatim>\<open>retry\<close> hands over to \<^verbatim>\<open>process\<close> only for a
  failed transaction whose retry count is below its maximum; otherwise it throws
  and neither the document nor the database changes, and at or beyond the
  maximum the error is the retry-limit error.  The route, called by the
  transaction's creator, answers a failed transaction at its limit with the
  retry-limit error, and whenever the transaction is not failed or is at its
  limit it leaves the database as it was.
\<close>

theorem retry_only_failed_below_limit:
  "(t_status t = Failed \<and> retryCount t < maxRetries t \<longrightarrow> retry fl now t d = process fl now t d) \<and>
   (\<not> (t_status t = Failed \<and> retryCount t < maxRetries t) \<longrightarrow>
      (\<exists>msg. retry fl now t d = (Inl msg, t, d))) \<and>
   (maxRetries t \<le> retryCount t \<longrightarrow>
      retry fl now t d = (Inl ''Maximum retry limit reached'', t, d)) \<and>
   (transactions d tid = Some t \<and> from_user t = u \<and> t_status t = Failed \<and>
    maxRetries t \<le> retryCount t \<longrightarrow>
      retry_route fl now u tid d = (Response 400 ''Maximum retry limit reached'', d)) \<and>
   (transactions d tid = Some t \<and> \<not> (t_status t = Failed \<and> retryCount t < maxRetries t) \<longrightarrow>
      snd (retry_route fl now u tid d) = d \<and>
      fst (retry_route fl now u tid d) \<noteq> Response 200 ''Transaction retried successfully'')"
  by (auto simp: retry_def retry_route_def)

theorem retry_only_failed_below_limit_witness:
  "retry no_faults 9 exhausted_transfer ledger =
     (Inl ''Maximum retry limit reached'', exhausted_transfer, ledger) \<and>
   retry_route no_faults 9 ''alice'' ''t1'' ledger =
     (Response 400 ''Maximum retry limit reached'', ledger) \<and>
   t_status exhausted_transfer = Failed \<and> retryCount exhausted_transfer = 3 \<and>
   maxRetries exhausted_transfer = 3"
  using retry_only_failed_below_limit
    [of exhausted_transfer no_faults 9 ledger "''t1''" "''alice''"]
  by (simp add: exhausted_transfer_fields ledger_transactions)

text \<open>
  Claim C10.  For a stored transaction and a requester other than its
  \<^verbatim>\<open>from.user\<close>, the retry route and the cancel route answer 403 and return
  the database unchanged; a success answer of either route implies that the
  requester is the transaction's \<^verbatim>\<open>from.user\<close>.
\<close>

theorem only_creator_retries_or_cancels:
  "(transactions d tid = Some t \<and> from_user t \<noteq> u \<longrightarrow>
      retry_route fl now u tid d = (Response 403 ''Only transaction creator can retry'', d) \<and>
      cancel_route u tid d = (Response 403 ''Only transaction creator can cancel'', d)) \<and>
   (fst (retry_route fl now u tid d) = Response 200 ''Transaction retried successfully'' \<longrightarrow>
      (\<exists>t. transactions d tid = Some t \<and> from_user t = u)) \<and>
   (fst (cancel_route u tid d) = Response 200 ''Transaction cancelled successfully'' \<longrightarrow>
      (\<exists>t. transactions d tid = Some t \<and> from_user t = u))"
  by (auto simp: retry_route_def cancel_route_def split: option.splits if_splits prod.splits)

theorem only_creator_retries_or_cancels_witness:
  "retry_route no_faults 9 ''bob'' ''t1'' ledger =
     (Response 403 ''Only transaction creator can retry'', ledger) \<and>
   cancel_route ''bob'' ''t1'' ledger =
     (Response 403 ''Only transaction creator can cancel'', ledger)"
  using only_creator_retries_or_cancels [of ledger "''t1''" exhausted_transfer "''bob''" no_faults 9]
  by (simp add: exhausted_transfer_fields ledger_transactions)

text \<open>
  Claim C4, as amended.  When the amount exceeds the sender's wallet balance,
  \<^verbatim>\<open>send-money\<close> fails and returns the database unchanged; its answer is
  the insufficient-balance error once the recipient exists and is not the
  sender, and otherwise the recipient error that the route checks first.
  \<^verbatim>\<open>POST /api/transactions\<close> answers a transfer or an expense with the
  insufficient-balance error and the unchanged database.
\<close>

theorem insufficient_balance_rejected:
  assumes "users d u = Some sender" and "walletBalance sender < amount"
  shows "snd (send_money fl now newId u rid amount descr pm d) = d \<and>
         (users d rid \<noteq> None \<and> rid \<noteq> u \<longrightarrow>
            fst (send_money fl now newId u rid amount descr pm d) =
              Response 400 ''Insufficient wallet balance'') \<and>
         (users d rid = None \<longrightarrow>
            fst (send_money fl now newId u rid amount descr pm d) =
              Response 404 ''Recipient not found'') \<and>
         (rid = u \<longrightarrow>
            fst (send_money fl now newId u rid amount descr pm d) =
              Response 400 ''Cannot send money to yourself'') \<and>
         (type \<in> {Expense, Transfer} \<longrightarrow>
            create_transaction fl now newId u type amount descr cat to pm d =
              (Response 400 ''Insufficient wallet balance'', d))"
  using assms
  by (auto simp: send_money_def create_transaction_def split: option.splits)

theorem insufficient_balance_rejected_witness:
  "send_money no_faults 9 ''t2'' ''alice'' ''bob'' 500 ''gift'' ''wallet'' bank =
     (Response 400 ''Insufficient wallet balance'', bank) \<and>
   create_transaction no_faults 9 ''t2'' ''alice'' Transfer 500 ''gift'' None
       (Some (Some ''bob'')) ''wallet'' bank =
     (Response 400 ''Insufficient wallet balance'', bank)"
proof -
  have lt: "walletBalance \<lparr>walletBalance = 100\<rparr> < (500::rat)" by simp
  have s: "send_money no_faults 9 ''t2'' ''alice'' ''bob'' 500 ''gift'' ''wallet'' bank =
      (fst (send_money no_faults 9 ''t2'' ''alice'' ''bob'' 500 ''gift'' ''wallet'' bank),
       snd (send_money no_faults 9 ''t2'' ''alice'' ''bob'' 500 ''gift'' ''wallet'' bank))"
    by simp
  from insufficient_balance_rejected [OF bank_users(1) lt,
      of no_faults 9 "''t2''" "''bob''" "''gift''" "''wallet''" Transfer None "Some (Some ''bob'')"]
  show ?thesis
    by (subst s) (simp add: bank_users)
qed

text \<open>
  Claim C4 as stated fails: alice holds 100 and asks to send 500 to an unknown
  recipient; the answer is the recipient error, not the insufficient-balance
  error.
\<close>

theorem unknown_recipient_counterexample:
  "wallet_of bank ''alice'' = Some 100 \<and>
   send_money no_faults 9 ''t2'' ''alice'' ''zed'' 500 ''gift'' ''wallet'' bank =
     (Response 404 ''Recipient not found'', bank)"
  by (simp add: send_money_def wallet_of_def bank_users)

section \<open>Settling an expense share: theorems\<close>

lemma dinner_lookup:
  "map_of (expenses bank_with_dinner) ''e1'' = Some dinner"
  "users bank_with_dinner ''bob'' = Some \<lparr>walletBalance = 50\<rparr>"
  by (simp_all add: bank_with_dinner_def bank_def)

lemma dinner_share:
  "find (\<lambda>p. p_user p = ''bob'') (participants dinner) =
     Some \<lparr>p_user = ''bob'', p_amount = 50, percentage = 50, shares = 1,
            settled = False, settledAt = None\<rparr>"
  by (simp add: dinner_def)

text \<open>
  Claim C9 on the code.  An unsettled participant who names an amount above the
  share is refused with nothing recorded, as the claim says.  But no request is
  ever recorded: the settlement transaction lacks the required
  \<^verbatim>\<open>from.balanceBefore\<close> and \<^verbatim>\<open>from.balanceAfter\<close>, its save is rejected, and
  the route answers 500.  So for the whole share and for a smaller positive
  amount alike, with sufficient funds, the answer is the failure and the database,
  the participant's flag included, is unchanged.
\<close>

theorem settle_expense_never_records:
  assumes "map_of (expenses d) eid = Some e"
    and "find (\<lambda>p. p_user p = u) (participants e) = Some up"
    and "\<not> settled up"
  shows "(\<forall>a. amount = Some a \<and> a \<noteq> 0 \<and> p_amount up < a \<longrightarrow>
            settle_expense ts fl now newId u eid amount pm d =
              Ok (Response 400 ''Settlement amount cannot exceed your share'', d)) \<and>
         ((amount = None \<or> amount = Some 0 \<or> amount = Some (p_amount up) \<or>
           (\<exists>a. amount = Some a \<and> 0 < a \<and> a < p_amount up)) \<and>
          (pm \<noteq> ''wallet'' \<or>
           (\<exists>w. users d u = Some w \<and>
              (case amount of None \<Rightarrow> p_amount up
               | Some a \<Rightarrow> if a = 0 then p_amount up else a) \<le> walletBalance w)) \<longrightarrow>
            settle_expense ts fl now newId u eid amount pm d =
              Ok (Response 500 ''Failed to settle expense'', d)) \<and>
         (\<exists>code msg. settle_expense ts fl now newId u eid amount pm d = Ok (Response code msg, d) \<and>
            code \<in> {400, 500})"
  using assms
  by (auto simp: settle_expense_def Let_def save_txn_def valid_txn_def split: option.splits)

theorem settle_expense_never_records_witness:
  "settle_expense render_participant no_faults 9 ''t3'' ''bob'' ''e1'' (Some 50) ''wallet''
       bank_with_dinner =
     Ok (Response 500 ''Failed to settle expense'', bank_with_dinner) \<and>
   settle_expense render_participant no_faults 9 ''t3'' ''bob'' ''e1'' (Some 20) ''wallet''
       bank_with_dinner =
     Ok (Response 500 ''Failed to settle expense'', bank_with_dinner) \<and>
   settle_expense render_participant no_faults 9 ''t3'' ''bob'' ''e1'' (Some 60) ''wallet''
       bank_with_dinner =
     Ok (Response 400 ''Settlement amount cannot exceed your share'', bank_with_dinner)"
  using
    settle_expense_never_records [OF dinner_lookup(1) dinner_share, of "Some 50" render_participant
      no_faults 9 "''t3''" "''wallet''"]
    settle_expense_never_records [OF dinner_lookup(1) dinner_share, of "Some 20" render_participant
      no_faults 9 "''t3''" "''wallet''"]
    settle_expense_never_records [OF dinner_lookup(1) dinner_share, of "Some 60" render_participant
      no_faults 9 "''t3''" "''wallet''"]
  by (simp add: dinner_lookup)

section \<open>Settlement suggestions: lemmas and theorems\<close>

lemma apply_suggestion_distinct:
  assumes "distinct (map m_user ms)"
  shows "apply_suggestion ms s =
     map (\<lambda>m. m\<lparr>balance := balance m + net_effect [s] (m_user m)\<rparr>) ms"
proof -
  let ?f = "\<lambda>m. m\<lparr>balance := balance m + sg_amount s\<rparr>"
  let ?g = "\<lambda>m. m\<lparr>balance := balance m - sg_amount s\<rparr>"
  have 1: "update_first (\<lambda>m. m_user m = sg_from s) ?f ms =
      map (\<lambda>m. if m_user m = sg_from s then ?f m else m) ms"
    using assms by (rule update_first_distinct) simp
  have d: "distinct (map m_user (map (\<lambda>m. if m_user m = sg_from s then ?f m else m) ms))"
    using assms by (simp add: o_def if_distrib [of m_user] cong: if_cong)
  have 2: "update_first (\<lambda>m. m_user m = sg_to s) ?g
        (map (\<lambda>m. if m_user m = sg_from s then ?f m else m) ms) =
      map (\<lambda>m. if m_user m = sg_to s then ?g m else m)
        (map (\<lambda>m. if m_user m = sg_from s then ?f m else m) ms)"
    using d by (rule update_first_distinct) simp
  show ?thesis
    unfolding apply_suggestion_def 1 2
    by (auto simp: net_effect_def)
qed

lemma net_effect_Cons:
  "net_effect (s # ss) u = net_effect [s] u + net_effect ss u"
  by (simp add: net_effect_def)

lemma net_effect_append:
  "net_effect (ss @ ts) u = net_effect ss u + net_effect ts u"
  by (simp add: net_effect_def)

lemma net_effect_Nil [simp]: "net_effect [] u = 0"
  by (simp add: net_effect_def)

lemma settle_all_distinct:
  assumes "distinct (map m_user ms)"
  shows "settle_all ms ss = map (\<lambda>m. m\<lparr>balance := balance m + net_effect ss (m_user m)\<rparr>) ms"
  using assms
proof (induction ss arbitrary: ms)
  case Nil
  show ?case by (simp add: settle_all_def)
next
  case (Cons s ss)
  let ?ms1 = "map (\<lambda>m. m\<lparr>balance := balance m + net_effect [s] (m_user m)\<rparr>) ms"
  have a: "apply_suggestion ms s = ?ms1" using Cons.prems by (rule apply_suggestion_distinct)
  have d: "distinct (map m_user ?ms1)" using Cons.prems by (simp add: o_def)
  have "settle_all ms (s # ss) = settle_all ?ms1 ss" by (simp add: settle_all_def a)
  also have "\<dots> = map (\<lambda>m. m\<lparr>balance := balance m + net_effect ss (m_user m)\<rparr>) ?ms1"
    using d by (rule Cons.IH)
  also have "\<dots> = map (\<lambda>m. m\<lparr>balance := balance m + net_effect (s # ss) (m_user m)\<rparr>) ms"
    by (simp add: o_def net_effect_Cons [of s ss] add.assoc)
  finally show ?case .
qed

lemma net_effect_mset:
  assumes "mset ss = mset ts"
  shows "net_effect ss u = net_effect ts u"
proof -
  let ?f = "\<lambda>s. (if sg_from s = u then sg_amount s else 0) - (if sg_to s = u then sg_amount s else 0)"
  have "net_effect ss u = sum_mset (image_mset ?f (mset ss))"
    by (simp add: net_effect_def flip: sum_mset_sum_list)
  also have "\<dots> = sum_mset (image_mset ?f (mset ts))" by (simp add: assms)
  also have "\<dots> = net_effect ts u"
    by (simp add: net_effect_def flip: sum_mset_sum_list)
  finally show ?thesis .
qed

lemma sweep_done:
  assumes "\<not> (i < length cs \<and> j < length ds)"
  shows "sweep i j cs ds acc = (cs, ds, acc)"
  by (subst sweep.simps) (simp only: assms if_False)

lemma sweep_step:
  assumes "i < length cs" "j < length ds"
  shows "sweep i j cs ds acc =
     sweep (if \<bar>fsub (balance (cs ! i)) (min (balance (cs ! i)) \<bar>balance (ds ! j)\<bar>)\<bar> < cent then i + 1 else i)
           (if \<bar>fadd (balance (ds ! j)) (min (balance (cs ! i)) \<bar>balance (ds ! j)\<bar>)\<bar> < cent then j + 1 else j)
           (cs[i := (cs ! i)\<lparr>balance := fsub (balance (cs ! i)) (min (balance (cs ! i)) \<bar>balance (ds ! j)\<bar>)\<rparr>])
           (ds[j := (ds ! j)\<lparr>balance := fadd (balance (ds ! j)) (min (balance (cs ! i)) \<bar>balance (ds ! j)\<bar>)\<rparr>])
           (acc @ [\<lparr>sg_from = m_user (ds ! j), sg_to = m_user (cs ! i),
                    sg_amount = min (balance (cs ! i)) \<bar>balance (ds ! j)\<bar>\<rparr>])"
  by (subst sweep.simps, simp only: assms simp_thms if_True Let_def, simp)

text \<open>Under the invariant the two updates of a round are exact.\<close>

lemma sweep_exact:
  assumes inv: "sweep_inv i j cs ds" and lt: "i < length cs" "j < length ds"
  shows "fsub (balance (cs ! i)) (min (balance (cs ! i)) \<bar>balance (ds ! j)\<bar>) =
           balance (cs ! i) - min (balance (cs ! i)) \<bar>balance (ds ! j)\<bar>"
    and "fadd (balance (ds ! j)) (min (balance (cs ! i)) \<bar>balance (ds ! j)\<bar>) =
           balance (ds ! j) + min (balance (cs ! i)) \<bar>balance (ds ! j)\<bar>"
proof -
  let ?c = "balance (cs ! i)" and ?d = "balance (ds ! j)"
  let ?amt = "min ?c \<bar>?d\<bar>"
  from inv lt have c: "0 < ?c" "?c \<in> \<int>" "?c \<le> 2 ^ 53"
    and d: "?d < 0" "?d \<in> \<int>" "- (2 ^ 53) \<le> ?d"
    by (auto simp: sweep_inv_def)
  have amt: "?amt = ?c \<or> ?amt = - ?d" using d(1) by (auto simp: min_def)
  then have ai: "?amt \<in> \<int>" using c(2) d(2) by auto
  have "?c - ?amt \<in> \<int>" using c(2) ai by simp
  moreover have "\<bar>?c - ?amt\<bar> \<le> 2 ^ 53" using c d(1) by (auto simp: min_def)
  ultimately show "fsub ?c ?amt = ?c - ?amt" unfolding fsub_def by (rule to_double_int)
  have "?d + ?amt \<in> \<int>" using d(2) ai by simp
  moreover have "\<bar>?d + ?amt\<bar> \<le> 2 ^ 53" using c(1) d by (auto simp: min_def)
  ultimately show "fadd ?d ?amt = ?d + ?amt" unfolding fadd_def by (rule to_double_int)
qed

lemma sweep_step_exact:
  assumes inv: "sweep_inv i j cs ds" and lt: "i < length cs" "j < length ds"
  shows "sweep i j cs ds acc =
     sweep (if \<bar>balance (cs ! i) - min (balance (cs ! i)) \<bar>balance (ds ! j)\<bar>\<bar> < cent then i + 1 else i)
           (if \<bar>balance (ds ! j) + min (balance (cs ! i)) \<bar>balance (ds ! j)\<bar>\<bar> < cent then j + 1 else j)
           (cs[i := (cs ! i)\<lparr>balance := balance (cs ! i) - min (balance (cs ! i)) \<bar>balance (ds ! j)\<bar>\<rparr>])
           (ds[j := (ds ! j)\<lparr>balance := balance (ds ! j) + min (balance (cs ! i)) \<bar>balance (ds ! j)\<bar>\<rparr>])
           (acc @ [\<lparr>sg_from = m_user (ds ! j), sg_to = m_user (cs ! i),
                    sg_amount = min (balance (cs ! i)) \<bar>balance (ds ! j)\<bar>\<rparr>])"
  by (subst sweep_step [OF lt]) (simp only: sweep_exact [OF inv lt])

lemma sum_balance_list_update:
  "i < length xs \<Longrightarrow>
   sum_list (map balance (xs[i := x])) = sum_list (map balance xs) - balance (xs ! i) + balance x"
  by (induction xs arbitrary: i) (auto split: nat.splits)

lemma nonpos_sum_zero:
  fixes xs :: "rat list"
  assumes "\<forall>x \<in> set xs. x \<le> 0" "sum_list xs = 0"
  shows "\<forall>x \<in> set xs. x = 0"
  using assms
proof (induction xs)
  case Nil
  show ?case by simp
next
  case (Cons a xs)
  have "sum_list xs \<le> 0" using Cons.prems(1) by (intro sum_list_nonpos) simp
  with Cons.prems have "a = 0" "sum_list xs = 0" by auto
  with Cons show ?case by simp
qed

lemma nonneg_sum_zero:
  fixes xs :: "rat list"
  assumes "\<forall>x \<in> set xs. 0 \<le> x" "sum_list xs = 0"
  shows "\<forall>x \<in> set xs. x = 0"
  using assms by (simp add: sum_list_nonneg_eq_0_iff)

lemma sweep_inv_step:
  assumes inv: "sweep_inv i j cs ds" and lt: "i < length cs" "j < length ds"
  defines "amt \<equiv> min (balance (cs ! i)) \<bar>balance (ds ! j)\<bar>"
  defines "c' \<equiv> balance (cs ! i) - amt" and "d' \<equiv> balance (ds ! j) + amt"
  shows "sweep_inv (if \<bar>c'\<bar> < cent then i + 1 else i) (if \<bar>d'\<bar> < cent then j + 1 else j)
           (cs[i := (cs ! i)\<lparr>balance := c'\<rparr>]) (ds[j := (ds ! j)\<lparr>balance := d'\<rparr>])"
    and "\<bar>c'\<bar> < cent \<or> \<bar>d'\<bar> < cent"
proof -
  let ?c = "balance (cs ! i)" and ?d = "balance (ds ! j)"
  from inv lt have c: "0 < ?c" "?c \<in> \<int>" "?c \<le> 2 ^ 53"
    and d: "?d < 0" "?d \<in> \<int>" "- (2 ^ 53) \<le> ?d"
    by (auto simp: sweep_inv_def)
  have amt: "amt = ?c \<or> amt = - ?d" using d(1) by (auto simp: amt_def min_def)
  have c'0: "0 \<le> c'" and d'0: "d' \<le> 0" and zero: "c' = 0 \<or> d' = 0"
    using c(1) d(1) by (auto simp: c'_def d'_def amt_def min_def)
  have ci: "c' \<in> \<int>" and di: "d' \<in> \<int>"
    using amt c(2) d(2) by (auto simp: c'_def d'_def)
  have cb: "c' \<le> 2 ^ 53" and db: "- (2 ^ 53) \<le> d'"
    using c d by (auto simp: c'_def d'_def amt_def min_def)
  have cz: "\<bar>c'\<bar> < cent \<longleftrightarrow> c' = 0" using ci by (rule int_below_cent)
  have dz: "\<bar>d'\<bar> < cent \<longleftrightarrow> d' = 0" using di by (rule int_below_cent)
  show "\<bar>c'\<bar> < cent \<or> \<bar>d'\<bar> < cent" using zero cz dz by blast
  have sum: "sum_list (map balance (cs[i := (cs ! i)\<lparr>balance := c'\<rparr>])) +
      sum_list (map balance (ds[j := (ds ! j)\<lparr>balance := d'\<rparr>])) = 0"
    using inv lt by (simp add: sum_balance_list_update sweep_inv_def c'_def d'_def)
  have whole_c: "\<forall>k < length cs. balance ((cs[i := (cs ! i)\<lparr>balance := c'\<rparr>]) ! k) \<in> \<int> \<and>
      balance ((cs[i := (cs ! i)\<lparr>balance := c'\<rparr>]) ! k) \<le> 2 ^ 53"
  proof (intro allI impI)
    fix k assume k: "k < length cs"
    with inv have "balance (cs ! k) \<in> \<int> \<and> balance (cs ! k) \<le> 2 ^ 53" by (simp add: sweep_inv_def)
    with k ci cb show "balance ((cs[i := (cs ! i)\<lparr>balance := c'\<rparr>]) ! k) \<in> \<int> \<and>
      balance ((cs[i := (cs ! i)\<lparr>balance := c'\<rparr>]) ! k) \<le> 2 ^ 53"
      by (cases "k = i") simp_all
  qed
  have whole_d: "\<forall>k < length ds. balance ((ds[j := (ds ! j)\<lparr>balance := d'\<rparr>]) ! k) \<in> \<int> \<and>
      - (2 ^ 53) \<le> balance ((ds[j := (ds ! j)\<lparr>balance := d'\<rparr>]) ! k)"
  proof (intro allI impI)
    fix k assume k: "k < length ds"
    with inv have "balance (ds ! k) \<in> \<int> \<and> - (2 ^ 53) \<le> balance (ds ! k)"
      by (simp add: sweep_inv_def)
    with k di db show "balance ((ds[j := (ds ! j)\<lparr>balance := d'\<rparr>]) ! k) \<in> \<int> \<and>
      - (2 ^ 53) \<le> balance ((ds[j := (ds ! j)\<lparr>balance := d'\<rparr>]) ! k)"
      by (cases "k = j") simp_all
  qed
  have pos_c: "\<forall>k < length cs.
      if k < (if \<bar>c'\<bar> < cent then i + 1 else i)
      then balance ((cs[i := (cs ! i)\<lparr>balance := c'\<rparr>]) ! k) = 0
      else 0 < balance ((cs[i := (cs ! i)\<lparr>balance := c'\<rparr>]) ! k)"
  proof (intro allI impI)
    fix k assume k: "k < length cs"
    from inv k have old: "if k < i then balance (cs ! k) = 0 else 0 < balance (cs ! k)"
      by (simp add: sweep_inv_def)
    show "if k < (if \<bar>c'\<bar> < cent then i + 1 else i)
      then balance ((cs[i := (cs ! i)\<lparr>balance := c'\<rparr>]) ! k) = 0
      else 0 < balance ((cs[i := (cs ! i)\<lparr>balance := c'\<rparr>]) ! k)"
    proof (cases "k = i")
      case True
      with k c'0 show ?thesis unfolding cz by auto
    next
      case False
      with k old show ?thesis unfolding cz by (auto split: if_splits)
    qed
  qed
  have neg_d: "\<forall>k < length ds.
      if k < (if \<bar>d'\<bar> < cent then j + 1 else j)
      then balance ((ds[j := (ds ! j)\<lparr>balance := d'\<rparr>]) ! k) = 0
      else balance ((ds[j := (ds ! j)\<lparr>balance := d'\<rparr>]) ! k) < 0"
  proof (intro allI impI)
    fix k assume k: "k < length ds"
    from inv k have old: "if k < j then balance (ds ! k) = 0 else balance (ds ! k) < 0"
      by (simp add: sweep_inv_def)
    show "if k < (if \<bar>d'\<bar> < cent then j + 1 else j)
      then balance ((ds[j := (ds ! j)\<lparr>balance := d'\<rparr>]) ! k) = 0
      else balance ((ds[j := (ds ! j)\<lparr>balance := d'\<rparr>]) ! k) < 0"
    proof (cases "k = j")
      case True
      with k d'0 show ?thesis unfolding dz by auto
    next
      case False
      with k old show ?thesis unfolding dz by (auto split: if_splits)
    qed
  qed
  show "sweep_inv (if \<bar>c'\<bar> < cent then i + 1 else i) (if \<bar>d'\<bar> < cent then j + 1 else j)
           (cs[i := (cs ! i)\<lparr>balance := c'\<rparr>]) (ds[j := (ds ! j)\<lparr>balance := d'\<rparr>])"
    unfolding sweep_inv_def length_list_update
  proof (intro conjI)
    show "(if \<bar>c'\<bar> < cent then i + 1 else i) \<le> length cs" using lt by simp
    show "(if \<bar>d'\<bar> < cent then j + 1 else j) \<le> length ds" using lt by simp
  qed (fact whole_c whole_d pos_c neg_d sum)+
qed

lemma sum_list_all_zero:
  fixes xs :: "rat list"
  shows "\<forall>x \<in> set xs. x = 0 \<Longrightarrow> sum_list xs = 0"
  by (induction xs) simp_all

lemma sweep_inv_done:
  assumes inv: "sweep_inv i j cs ds" and fin: "\<not> (i < length cs \<and> j < length ds)"
  shows "(\<forall>m \<in> set cs. balance m = 0) \<and> (\<forall>m \<in> set ds. balance m = 0)"
proof -
  from inv have le: "i \<le> length cs" "j \<le> length ds"
    and pc: "\<forall>k < length cs. if k < i then balance (cs ! k) = 0 else 0 < balance (cs ! k)"
    and nd: "\<forall>k < length ds. if k < j then balance (ds ! k) = 0 else balance (ds ! k) < 0"
    and sum: "sum_list (map balance cs) + sum_list (map balance ds) = 0"
    by (simp_all add: sweep_inv_def)
  have cs_nonneg: "\<forall>x \<in> set (map balance cs). 0 \<le> x"
  proof
    fix x assume "x \<in> set (map balance cs)"
    then obtain k where k: "k < length cs" "x = balance (cs ! k)"
      by (auto simp: in_set_conv_nth)
    with pc have "if k < i then x = 0 else 0 < x" by simp
    then show "0 \<le> x" by (simp split: if_splits)
  qed
  have ds_nonpos: "\<forall>x \<in> set (map balance ds). x \<le> 0"
  proof
    fix x assume "x \<in> set (map balance ds)"
    then obtain k where k: "k < length ds" "x = balance (ds ! k)"
      by (auto simp: in_set_conv_nth)
    with nd have "if k < j then x = 0 else x < 0" by simp
    then show "x \<le> 0" by (simp split: if_splits)
  qed
  from fin le have "i = length cs \<or> j = length ds" by auto
  then have "sum_list (map balance cs) = 0 \<and> sum_list (map balance ds) = 0"
  proof
    assume i: "i = length cs"
    have "\<forall>x \<in> set (map balance cs). x = 0"
    proof
      fix x assume "x \<in> set (map balance cs)"
      then obtain k where k: "k < length cs" "x = balance (cs ! k)"
        by (auto simp: in_set_conv_nth)
      with pc i show "x = 0" by simp
    qed
    then have "sum_list (map balance cs) = 0" by (rule sum_list_all_zero)
    with sum show ?thesis by simp
  next
    assume j: "j = length ds"
    have "\<forall>x \<in> set (map balance ds). x = 0"
    proof
      fix x assume "x \<in> set (map balance ds)"
      then obtain k where k: "k < length ds" "x = balance (ds ! k)"
        by (auto simp: in_set_conv_nth)
      with nd j show "x = 0" by simp
    qed
    then have "sum_list (map balance ds) = 0" by (rule sum_list_all_zero)
    with sum show ?thesis by simp
  qed
  then have "\<forall>x \<in> set (map balance cs). x = 0" "\<forall>x \<in> set (map balance ds). x = 0"
    using cs_nonneg ds_nonpos nonneg_sum_zero nonpos_sum_zero by blast+
  then show ?thesis by simp
qed

lemma sweep_clears:
  assumes "sweep_inv i j cs ds" "sweep i j cs ds acc = (cs', ds', acc')"
  shows "(\<forall>m \<in> set cs'. balance m = 0) \<and> (\<forall>m \<in> set ds'. balance m = 0)"
  using assms
proof (induction "(length cs - i) + (length ds - j)" arbitrary: i j cs ds acc rule: less_induct)
  case less
  show ?case
  proof (cases "i < length cs \<and> j < length ds")
    case False
    then have "sweep i j cs ds acc = (cs, ds, acc)" by (rule sweep_done)
    with less.prems(2) have "cs' = cs" "ds' = ds" by simp_all
    with sweep_inv_done [OF less.prems(1) False] show ?thesis by simp
  next
    case True
    then have lt: "i < length cs" "j < length ds" by simp_all
    let ?amt = "min (balance (cs ! i)) \<bar>balance (ds ! j)\<bar>"
    let ?c' = "balance (cs ! i) - ?amt" and ?d' = "balance (ds ! j) + ?amt"
    let ?i' = "if \<bar>?c'\<bar> < cent then i + 1 else i"
    let ?j' = "if \<bar>?d'\<bar> < cent then j + 1 else j"
    let ?cs1 = "cs[i := (cs ! i)\<lparr>balance := ?c'\<rparr>]"
    let ?ds1 = "ds[j := (ds ! j)\<lparr>balance := ?d'\<rparr>]"
    let ?acc1 = "acc @ [\<lparr>sg_from = m_user (ds ! j), sg_to = m_user (cs ! i), sg_amount = ?amt\<rparr>]"
    have inv1: "sweep_inv ?i' ?j' ?cs1 ?ds1"
      and progress: "\<bar>?c'\<bar> < cent \<or> \<bar>?d'\<bar> < cent"
      using sweep_inv_step [OF less.prems(1) lt] by simp_all
    have step: "sweep i j cs ds acc = sweep ?i' ?j' ?cs1 ?ds1 ?acc1"
      using less.prems(1) lt by (rule sweep_step_exact)
    with less.prems(2) have res: "sweep ?i' ?j' ?cs1 ?ds1 ?acc1 = (cs', ds', acc')" by simp
    have dec: "(length ?cs1 - ?i') + (length ?ds1 - ?j') < (length cs - i) + (length ds - j)"
      using lt progress by auto
    from less.hyps [OF dec inv1 res] show ?thesis .
  qed
qed

lemma net_effect_single:
  "net_effect [\<lparr>sg_from = f, sg_to = t, sg_amount = a\<rparr>] u =
     (if f = u then a else 0) - (if t = u then a else 0)"
  by (simp add: net_effect_def)

lemma map_m_user_update_balance:
  "map m_user (xs[i := (xs ! i)\<lparr>balance := b\<rparr>]) = map m_user xs"
  by (cases "i < length xs") (simp_all add: map_update list_update_same_conv list_update_beyond)

lemma distinct_users_nth:
  assumes "distinct (map m_user xs)" "k < length xs" "i < length xs" "k \<noteq> i"
  shows "m_user (xs ! k) \<noteq> m_user (xs ! i)"
proof -
  from assms have "(map m_user xs ! k = map m_user xs ! i) = (k = i)"
    by (intro nth_eq_iff_index_eq) simp_all
  with assms show ?thesis by simp
qed

lemma sweep_effect:
  assumes "sweep_inv i j cs ds" "sweep i j cs ds acc = (cs', ds', acc')"
    and "distinct (map m_user (cs @ ds))"
  shows "length cs' = length cs \<and> length ds' = length ds \<and>
     (\<exists>new. acc' = acc @ new \<and>
        (\<forall>k < length cs. m_user (cs' ! k) = m_user (cs ! k) \<and>
           balance (cs' ! k) = balance (cs ! k) + net_effect new (m_user (cs ! k))) \<and>
        (\<forall>k < length ds. m_user (ds' ! k) = m_user (ds ! k) \<and>
           balance (ds' ! k) = balance (ds ! k) + net_effect new (m_user (ds ! k))) \<and>
        (\<forall>u. u \<notin> m_user ` set (cs @ ds) \<longrightarrow> net_effect new u = 0))"
  using assms
proof (induction "(length cs - i) + (length ds - j)" arbitrary: i j cs ds acc rule: less_induct)
  case less
  note inv = less.prems(1) and run = less.prems(2) and dist = less.prems(3)
  show ?case
  proof (cases "i < length cs \<and> j < length ds")
    case False
    then have "sweep i j cs ds acc = (cs, ds, acc)" by (rule sweep_done)
    with run have "cs' = cs" "ds' = ds" "acc' = acc" by simp_all
    then show ?thesis by simp
  next
    case True
    then have lt: "i < length cs" "j < length ds" by simp_all
    define amt where "amt = min (balance (cs ! i)) \<bar>balance (ds ! j)\<bar>"
    define cs1 where "cs1 = cs[i := (cs ! i)\<lparr>balance := balance (cs ! i) - amt\<rparr>]"
    define ds1 where "ds1 = ds[j := (ds ! j)\<lparr>balance := balance (ds ! j) + amt\<rparr>]"
    define s where "s = \<lparr>sg_from = m_user (ds ! j), sg_to = m_user (cs ! i), sg_amount = amt\<rparr>"
    have users1: "map m_user cs1 = map m_user cs" "map m_user ds1 = map m_user ds"
      by (simp_all add: cs1_def ds1_def map_m_user_update_balance)
    then have dist1: "distinct (map m_user (cs1 @ ds1))" using dist by simp
    have img1: "m_user ` set (cs1 @ ds1) = m_user ` set (cs @ ds)"
      using users1 by (metis map_append set_map)
    define i' where "i' = (if \<bar>balance (cs ! i) - amt\<bar> < cent then i + 1 else i)"
    define j' where "j' = (if \<bar>balance (ds ! j) + amt\<bar> < cent then j + 1 else j)"
    have inv1: "sweep_inv i' j' cs1 ds1"
      and progress: "\<bar>balance (cs ! i) - amt\<bar> < cent \<or> \<bar>balance (ds ! j) + amt\<bar> < cent"
      using sweep_inv_step [OF inv lt] by (simp_all add: amt_def cs1_def ds1_def i'_def j'_def)
    have res: "sweep i' j' cs1 ds1 (acc @ [s]) = (cs', ds', acc')"
      using run sweep_step_exact [OF inv lt, of acc]
      by (simp add: amt_def cs1_def ds1_def s_def i'_def j'_def)
    have dec: "(length cs1 - i') + (length ds1 - j') < (length cs - i) + (length ds - j)"
      using lt progress by (auto simp: cs1_def ds1_def i'_def j'_def)
    from less.hyps [OF dec inv1 res dist1]
    have ih: "length cs' = length cs1 \<and> length ds' = length ds1 \<and>
     (\<exists>new. acc' = (acc @ [s]) @ new \<and>
        (\<forall>k < length cs1. m_user (cs' ! k) = m_user (cs1 ! k) \<and>
           balance (cs' ! k) = balance (cs1 ! k) + net_effect new (m_user (cs1 ! k))) \<and>
        (\<forall>k < length ds1. m_user (ds' ! k) = m_user (ds1 ! k) \<and>
           balance (ds' ! k) = balance (ds1 ! k) + net_effect new (m_user (ds1 ! k))) \<and>
        (\<forall>u. u \<notin> m_user ` set (cs1 @ ds1) \<longrightarrow> net_effect new u = 0))" .
    then obtain new where new: "acc' = (acc @ [s]) @ new"
      and c1: "\<forall>k < length cs1. m_user (cs' ! k) = m_user (cs1 ! k) \<and>
           balance (cs' ! k) = balance (cs1 ! k) + net_effect new (m_user (cs1 ! k))"
      and d1: "\<forall>k < length ds1. m_user (ds' ! k) = m_user (ds1 ! k) \<and>
           balance (ds' ! k) = balance (ds1 ! k) + net_effect new (m_user (ds1 ! k))"
      and o1: "\<forall>u. u \<notin> m_user ` set (cs1 @ ds1) \<longrightarrow> net_effect new u = 0"
      by blast
    have len: "length cs1 = length cs" "length ds1 = length ds"
      by (simp_all add: cs1_def ds1_def)
    from dist have dc: "distinct (map m_user cs)" and dd: "distinct (map m_user ds)"
      and disj: "m_user ` set cs \<inter> m_user ` set ds = {}"
      by simp_all
    have cd: "m_user (cs ! k) \<noteq> m_user (ds ! l)" if "k < length cs" "l < length ds" for k l
      using disj that by (metis disjoint_iff imageI nth_mem)
    have user1: "m_user (cs1 ! k) = m_user (cs ! k)" if "k < length cs" for k
      using that by (cases "k = i") (simp_all add: cs1_def)
    have user2: "m_user (ds1 ! k) = m_user (ds ! k)" if "k < length ds" for k
      using that by (cases "k = j") (simp_all add: ds1_def)
    have f1: "acc' = acc @ (s # new)" using new by simp
    have f2: "\<forall>k < length cs. m_user (cs' ! k) = m_user (cs ! k) \<and>
           balance (cs' ! k) = balance (cs ! k) + net_effect (s # new) (m_user (cs ! k))"
    proof (intro allI impI)
      fix k assume k: "k < length cs"
      from c1 k len have a: "m_user (cs' ! k) = m_user (cs1 ! k)"
        "balance (cs' ! k) = balance (cs1 ! k) + net_effect new (m_user (cs1 ! k))" by simp_all
      show "m_user (cs' ! k) = m_user (cs ! k) \<and>
           balance (cs' ! k) = balance (cs ! k) + net_effect (s # new) (m_user (cs ! k))"
      proof (cases "k = i")
        case True
        have "net_effect [s] (m_user (cs ! i)) = - amt"
          using cd [OF lt] by (simp add: s_def net_effect_single)
        with a k True show ?thesis
          by (simp add: user1 net_effect_Cons [of s new] cs1_def)
      next
        case False
        have "net_effect [s] (m_user (cs ! k)) = 0"
          using cd [OF k lt(2)] distinct_users_nth [OF dc k lt(1) False]
          by (simp add: s_def net_effect_single)
        with a k False show ?thesis
          by (simp add: user1 net_effect_Cons [of s new] cs1_def)
      qed
    qed
    have f3: "\<forall>k < length ds. m_user (ds' ! k) = m_user (ds ! k) \<and>
           balance (ds' ! k) = balance (ds ! k) + net_effect (s # new) (m_user (ds ! k))"
    proof (intro allI impI)
      fix k assume k: "k < length ds"
      from d1 k len have a: "m_user (ds' ! k) = m_user (ds1 ! k)"
        "balance (ds' ! k) = balance (ds1 ! k) + net_effect new (m_user (ds1 ! k))" by simp_all
      show "m_user (ds' ! k) = m_user (ds ! k) \<and>
           balance (ds' ! k) = balance (ds ! k) + net_effect (s # new) (m_user (ds ! k))"
      proof (cases "k = j")
        case True
        have "net_effect [s] (m_user (ds ! j)) = amt"
          using cd [OF lt] by (simp add: s_def net_effect_single)
        with a k True show ?thesis
          by (simp add: user2 net_effect_Cons [of s new] ds1_def)
      next
        case False
        have "net_effect [s] (m_user (ds ! k)) = 0"
          using cd [OF lt(1) k] distinct_users_nth [OF dd k lt(2) False]
          by (simp add: s_def net_effect_single)
        with a k False show ?thesis
          by (simp add: user2 net_effect_Cons [of s new] ds1_def)
      qed
    qed
    have f4: "\<forall>u. u \<notin> m_user ` set (cs @ ds) \<longrightarrow> net_effect (s # new) u = 0"
    proof (intro allI impI)
      fix u assume u: "u \<notin> m_user ` set (cs @ ds)"
      with o1 img1 have "net_effect new u = 0" by simp
      moreover have "m_user (cs ! i) \<in> m_user ` set (cs @ ds)" "m_user (ds ! j) \<in> m_user ` set (cs @ ds)"
        using lt by simp_all
      with u have "net_effect [s] u = 0"
        by (auto simp: s_def net_effect_single)
      ultimately show "net_effect (s # new) u = 0"
        by (simp add: net_effect_Cons [of s new])
    qed
    from ih len have l: "length cs' = length cs" "length ds' = length ds" by simp_all
    show ?thesis
      by (intro conjI exI [of _ "s # new"]) (fact l f1 f2 f3 f4)+
  qed
qed

lemma sum_list_map_sort_key:
  fixes f :: "'a \<Rightarrow> rat"
  shows "sum_list (map f (sort_key g xs)) = sum_list (map f xs)"
proof -
  have "sum_list (map f (sort_key g xs)) = sum_mset (image_mset f (mset (sort_key g xs)))"
    by (simp flip: sum_mset_sum_list)
  also have "\<dots> = sum_mset (image_mset f (mset xs))" by simp
  also have "\<dots> = sum_list (map f xs)" by (simp flip: sum_mset_sum_list)
  finally show ?thesis .
qed

lemma sum_list_split_filter:
  fixes f :: "'a \<Rightarrow> rat"
  assumes "\<forall>x \<in> set xs. (P x \<and> \<not> Q x) \<or> (Q x \<and> \<not> P x)"
  shows "sum_list (map f (filter P xs)) + sum_list (map f (filter Q xs)) = sum_list (map f xs)"
  using assms by (induction xs) auto

lemma distinct_map_sort_key:
  "distinct (map f (sort_key g xs)) = distinct (map f xs)"
  by (simp add: distinct_map)

text \<open>The two arrays that the route hands to the loop.\<close>

lemma suggestSettlements_sweep:
  "suggestSettlements ms =
     sweep 0 0 (sort_key (\<lambda>m. - balance m) (filter (\<lambda>m. swept m \<and> 0 < balance m) ms))
               (sort_key balance (filter (\<lambda>m. swept m \<and> balance m < 0) ms)) []"
proof -
  have "filter (\<lambda>m. 0 < balance m) (filter (\<lambda>m. \<bar>balance m\<bar> > cent) ms) =
      filter (\<lambda>m. swept m \<and> 0 < balance m) ms"
    by (simp add: swept_def conj_commute)
  moreover have "filter (\<lambda>m. balance m < 0) (filter (\<lambda>m. \<bar>balance m\<bar> > cent) ms) =
      filter (\<lambda>m. swept m \<and> balance m < 0) ms"
    by (simp add: swept_def conj_commute)
  ultimately show ?thesis by (simp add: suggestSettlements_def Let_def)
qed

lemma suggestions_net_effect:
  assumes dist: "distinct (map m_user ms)"
    and whole: "\<forall>m \<in> set ms. balance m \<in> \<int> \<and> \<bar>balance m\<bar> \<le> 2 ^ 53"
    and zero: "sum_list (map balance (filter swept ms)) = 0"
    and m: "m \<in> set ms"
  shows "net_effect (suggestedSettlements ms) (m_user m) = (if swept m then - balance m else 0)"
proof -
  define cs where "cs = sort_key (\<lambda>m. - balance m) (filter (\<lambda>m. swept m \<and> 0 < balance m) ms)"
  define ds where "ds = sort_key balance (filter (\<lambda>m. swept m \<and> balance m < 0) ms)"
  obtain cs' ds' ss where res: "sweep 0 0 cs ds [] = (cs', ds', ss)"
    by (cases "sweep 0 0 cs ds []")
  then have ss: "suggestedSettlements ms = ss"
    by (simp add: suggestedSettlements_def suggestSettlements_sweep cs_def ds_def)
  have set_cs: "set cs = {m \<in> set ms. swept m \<and> 0 < balance m}"
    and set_ds: "set ds = {m \<in> set ms. swept m \<and> balance m < 0}"
    by (auto simp: cs_def ds_def)
  have inj: "inj_on m_user (set ms)" and dms: "distinct ms"
    using dist by (simp_all add: distinct_map)
  have dist_cd: "distinct (map m_user (cs @ ds))"
  proof -
    have "distinct (map m_user cs)" "distinct (map m_user ds)"
      using dist by (simp_all add: cs_def ds_def distinct_map_sort_key distinct_map_filter)
    moreover have "m_user ` set cs \<inter> m_user ` set ds = {}"
    proof -
      have "set cs \<inter> set ds = {}" using set_cs set_ds by auto
      moreover have "set cs \<subseteq> set ms" "set ds \<subseteq> set ms" using set_cs set_ds by auto
      ultimately show ?thesis using inj by (metis inj_on_image_Int image_empty)
    qed
    ultimately show ?thesis by simp
  qed
  have sum0: "sum_list (map balance cs) + sum_list (map balance ds) = 0"
  proof -
    have "sum_list (map balance cs) + sum_list (map balance ds) =
        sum_list (map balance (filter (\<lambda>m. 0 < balance m) (filter swept ms))) +
        sum_list (map balance (filter (\<lambda>m. balance m < 0) (filter swept ms)))"
      by (simp add: cs_def ds_def sum_list_map_sort_key conj_commute)
    also have "\<dots> = sum_list (map balance (filter swept ms))"
      by (rule sum_list_split_filter) (use cent_bounds(1) in \<open>auto simp: swept_def\<close>)
    finally show ?thesis using zero by simp
  qed
  have in_cs: "balance x \<in> \<int> \<and> balance x \<le> 2 ^ 53 \<and> 0 < balance x" if "x \<in> set cs" for x
  proof -
    from that set_cs have "x \<in> set ms" "0 < balance x" by simp_all
    with whole show ?thesis by auto
  qed
  have in_ds: "balance x \<in> \<int> \<and> - (2 ^ 53) \<le> balance x \<and> balance x < 0" if "x \<in> set ds" for x
  proof -
    from that set_ds have "x \<in> set ms" "balance x < 0" by simp_all
    with whole show ?thesis by auto
  qed
  have inv: "sweep_inv 0 0 cs ds"
    unfolding sweep_inv_def
  proof (intro conjI)
    show "\<forall>k < length cs. balance (cs ! k) \<in> \<int> \<and> balance (cs ! k) \<le> 2 ^ 53"
      using in_cs nth_mem by blast
    show "\<forall>k < length ds. balance (ds ! k) \<in> \<int> \<and> - (2 ^ 53) \<le> balance (ds ! k)"
      using in_ds nth_mem by blast
    show "\<forall>k < length cs. if k < 0 then balance (cs ! k) = 0 else 0 < balance (cs ! k)"
      by (simp add: in_cs)
    show "\<forall>k < length ds. if k < 0 then balance (ds ! k) = 0 else balance (ds ! k) < 0"
      by (simp add: in_ds)
  qed (simp_all add: sum0)
  from sweep_clears [OF inv res]
  have clear: "\<forall>x \<in> set cs'. balance x = 0" "\<forall>x \<in> set ds'. balance x = 0" by simp_all
  from sweep_effect [OF inv res dist_cd] obtain new where
    len: "length cs' = length cs" "length ds' = length ds" and "ss = [] @ new"
    and ec: "\<forall>k < length cs. m_user (cs' ! k) = m_user (cs ! k) \<and>
           balance (cs' ! k) = balance (cs ! k) + net_effect new (m_user (cs ! k))"
    and ed: "\<forall>k < length ds. m_user (ds' ! k) = m_user (ds ! k) \<and>
           balance (ds' ! k) = balance (ds ! k) + net_effect new (m_user (ds ! k))"
    and eo: "\<forall>u. u \<notin> m_user ` set (cs @ ds) \<longrightarrow> net_effect new u = 0"
    by blast
  then have new: "new = ss" by simp
  show ?thesis
  proof (cases "swept m")
    case True
    then have "balance m \<noteq> 0" using cent_bounds(1) by (auto simp: swept_def)
    then consider "0 < balance m" | "balance m < 0" by linarith
    then have "net_effect ss (m_user m) = - balance m"
    proof cases
      case 1
      with True m set_cs have "m \<in> set cs" by simp
      then obtain k where k: "k < length cs" "cs ! k = m" by (auto simp: in_set_conv_nth)
      with len have "cs' ! k \<in> set cs'" by simp
      with clear have "balance (cs' ! k) = 0" by simp
      with ec k new show ?thesis by auto
    next
      case 2
      with True m set_ds have "m \<in> set ds" by simp
      then obtain k where k: "k < length ds" "ds ! k = m" by (auto simp: in_set_conv_nth)
      with len have "ds' ! k \<in> set ds'" by simp
      with clear have "balance (ds' ! k) = 0" by simp
      with ed k new show ?thesis by auto
    qed
    with True ss show ?thesis by simp
  next
    case False
    have "m_user m \<notin> m_user ` set (cs @ ds)"
    proof
      assume "m_user m \<in> m_user ` set (cs @ ds)"
      then obtain m' where m': "m' \<in> set (cs @ ds)" "m_user m' = m_user m"
        by (metis imageE)
      then have "m' \<in> set ms" "swept m'" using set_cs set_ds by auto
      with inj m m'(2) have "m' = m" by (auto dest: inj_onD)
      with \<open>swept m'\<close> False show False by simp
    qed
    with eo new have "net_effect ss (m_user m) = 0" by simp
    with False ss show ?thesis by simp
  qed
qed

lemma sum_list_filter_nonzero:
  fixes f :: "'a \<Rightarrow> rat"
  shows "sum_list (map f (filter (\<lambda>x. f x \<noteq> 0) xs)) = sum_list (map f xs)"
  by (induction xs) simp_all

lemma abc_suggestions:
  "suggestSettlements abc_balances =
     ([member_with ''A'' 0], [member_with ''C'' 0, member_with ''B'' 0],
      [\<lparr>sg_from = ''C'', sg_to = ''A'', sg_amount = 300\<rparr>,
       \<lparr>sg_from = ''B'', sg_to = ''A'', sg_amount = 200\<rparr>])"
proof -
  have s: "fsub 500 300 = 200" "fsub 200 200 = 0" "fadd (- 300) 300 = 0" "fadd (- 200) 200 = 0"
    by (simp_all add: fsub_def fadd_def to_double_int)
  have c: "cent < 500" "cent < 300" "cent < 200" "\<not> 200 < cent"
    using cent_bounds(2) by simp_all
  show ?thesis
    using cent_bounds(1)
    by (simp add: suggestSettlements_def abc_balances_def member_with_def new_member_def
        sweep.simps Let_def s c)
qed

lemma tiny_suggestions: "suggestSettlements tiny_debts = ([member_with ''A'' (2 * cent)], [], [])"
  using cent_bounds(1)
  by (simp add: suggestSettlements_def tiny_debts_def member_with_def
      new_member_def sweep.simps Let_def)

lemma abc_suggested:
  "suggestedSettlements abc_balances =
     [\<lparr>sg_from = ''C'', sg_to = ''A'', sg_amount = 300\<rparr>,
      \<lparr>sg_from = ''B'', sg_to = ''A'', sg_amount = 200\<rparr>]"
  by (simp add: suggestedSettlements_def abc_suggestions)

text \<open>
  Claim C7, as amended.  For members with distinct users whose balances are whole
  numbers of at most \<open>2 ^ 53\<close> in magnitude and sum to zero, carrying out
  the suggested transfers in any order brings every balance to exactly zero.  On
  such balances the loop and the transfers compute without rounding: a
  creditor's balance only falls towards zero and a debtor's only rises towards
  zero, through whole numbers.  For A: 500, B: -200, C: -300 the suggestions are
  C to A 300 and B to A 200.
\<close>

theorem suggestions_clear_whole_balances:
  assumes "distinct (map m_user ms)"
    and "\<forall>m \<in> set ms. balance m \<in> \<int> \<and> \<bar>balance m\<bar> \<le> 2 ^ 53"
    and "sum_list (map balance ms) = 0"
    and "mset ss = mset (suggestedSettlements ms)"
  shows "settle_all ms ss = map (\<lambda>m. m\<lparr>balance := 0\<rparr>) ms \<and>
         suggestedSettlements abc_balances =
           [\<lparr>sg_from = ''C'', sg_to = ''A'', sg_amount = 300\<rparr>,
            \<lparr>sg_from = ''B'', sg_to = ''A'', sg_amount = 200\<rparr>]"
proof -
  have sw: "swept m \<longleftrightarrow> balance m \<noteq> 0" if "m \<in> set ms" for m
    using that assms(2) int_above_cent [of "balance m"] by (simp add: swept_def)
  have "filter swept ms = filter (\<lambda>m. balance m \<noteq> 0) ms"
    by (rule filter_cong) (simp_all add: sw)
  then have zero: "sum_list (map balance (filter swept ms)) = 0"
    using assms(3) by (simp add: sum_list_filter_nonzero)
  have net: "net_effect ss (m_user m) = - balance m" if "m \<in> set ms" for m
    using suggestions_net_effect [OF assms(1,2) zero that] net_effect_mset [OF assms(4)] sw [OF that]
    by simp
  have "settle_all ms ss = map (\<lambda>m. m\<lparr>balance := balance m + net_effect ss (m_user m)\<rparr>) ms"
    using assms(1) by (rule settle_all_distinct)
  also have "\<dots> = map (\<lambda>m. m\<lparr>balance := 0\<rparr>) ms"
    by (rule map_cong) (simp_all add: net)
  finally have eq: "settle_all ms ss = map (\<lambda>m. m\<lparr>balance := 0\<rparr>) ms" .
  with abc_suggested show ?thesis by simp
qed

theorem suggestions_clear_whole_balances_witness:
  "suggestedSettlements abc_balances =
     [\<lparr>sg_from = ''C'', sg_to = ''A'', sg_amount = 300\<rparr>,
      \<lparr>sg_from = ''B'', sg_to = ''A'', sg_amount = 200\<rparr>] \<and>
   map balance (settle_all abc_balances
     [\<lparr>sg_from = ''B'', sg_to = ''A'', sg_amount = 200\<rparr>,
      \<lparr>sg_from = ''C'', sg_to = ''A'', sg_amount = 300\<rparr>]) = [0, 0, 0]"
proof -
  let ?ss = "[\<lparr>sg_from = ''B'', sg_to = ''A'', sg_amount = 200\<rparr>,
      \<lparr>sg_from = ''C'', sg_to = ''A'', sg_amount = 300\<rparr>]"
  have d: "distinct (map m_user abc_balances)"
    by (simp add: abc_balances_def member_with_def new_member_def)
  have c: "\<forall>m \<in> set abc_balances. balance m \<in> \<int> \<and> \<bar>balance m\<bar> \<le> 2 ^ 53"
    by (simp add: abc_balances_def member_with_def new_member_def)
  have z: "sum_list (map balance abc_balances) = 0"
    by (simp add: abc_balances_def member_with_def new_member_def)
  have m: "mset ?ss = mset (suggestedSettlements abc_balances)"
    by (simp add: abc_suggested)
  from suggestions_clear_whole_balances [OF d c z m]
  have "settle_all abc_balances ?ss = map (\<lambda>m. m\<lparr>balance := 0\<rparr>) abc_balances"
    by simp
  then have "map balance (settle_all abc_balances ?ss) = [0, 0, 0]"
    by (simp add: abc_balances_def member_with_def new_member_def)
  with abc_suggested show ?thesis by simp
qed

text \<open>
  Claim C7 as stated fails.  With the balances \<^verbatim>\<open>0.02\<close>, \<^verbatim>\<open>-0.01\<close>,
  \<^verbatim>\<open>-0.01\<close>, which sum to zero, nobody but the creditor passes the
  threshold, nothing is suggested and the creditor stays at \<^verbatim>\<open>0.02\<close>, more
  than \<^verbatim>\<open>0.01\<close> away from zero.
\<close>

theorem small_balances_left_counterexample:
  "sum_list (map balance tiny_debts) = 0 \<and>
   suggestedSettlements tiny_debts = [] \<and>
   map balance (settle_all tiny_debts (suggestedSettlements tiny_debts)) =
     [2 * cent, - cent, - cent] \<and>
   cent < \<bar>2 * cent\<bar>"
proof -
  have a: "sum_list (map balance tiny_debts) = 0"
    "map balance (settle_all tiny_debts []) = [2 * cent, - cent, - cent]"
    by (simp_all add: settle_all_def tiny_debts_def member_with_def new_member_def)
  have s: "suggestedSettlements tiny_debts = []"
    by (simp add: suggestedSettlements_def tiny_suggestions)
  show ?thesis
    unfolding s using a cent_bounds(1) by simp
qed

text \<open>
  Balances in whole cents are not enough for the claim.  On the doubles
  \<^verbatim>\<open>0.06\<close>, \<^verbatim>\<open>0.02\<close>, \<^verbatim>\<open>-0.05\<close>, \<^verbatim>\<open>-0.03\<close> the first round leaves
  the creditor at \<^verbatim>\<open>0.06 - 0.05\<close>, a double below the double \<^verbatim>\<open>0.01\<close>, so
  the creditor is passed; the loop makes two suggestions and leaves two residues.
\<close>

lemma double_cents:
  "to_double (3 / 50) = 1080863910568919 / 18014398509481984"
  "to_double (1 / 50) = 5764607523034235 / 288230376151711744"
  "to_double (1 / 20) = 3602879701896397 / 72057594037927936"
  "to_double (3 / 100) = 1080863910568919 / 36028797018963968"
  by (simp_all add: double_eval)

lemma cent_debts_suggestions:
  "suggestSettlements cent_debts =
     ([member_with ''A'' (720575940379279 / 72057594037927936), member_with ''B'' 0],
      [member_with ''C'' 0, member_with ''D'' (- (2882303761517117 / 288230376151711744))],
      [\<lparr>sg_from = ''C'', sg_to = ''A'', sg_amount = 3602879701896397 / 72057594037927936\<rparr>,
       \<lparr>sg_from = ''D'', sg_to = ''B'', sg_amount = 5764607523034235 / 288230376151711744\<rparr>])"
proof -
  have a: "to_double (720575940379279 / 72057594037927936) = 720575940379279 / 72057594037927936"
    using to_double_dyadic [of 720575940379279 "- 56"] by (simp add: power_int_minus_divide)
  have b: "to_double (- (2882303761517117 / 288230376151711744)) =
      - (2882303761517117 / 288230376151711744)"
    using to_double_dyadic [of "- 2882303761517117" "- 58"] by (simp add: power_int_minus_divide)
  show ?thesis
    by (simp add: suggestSettlements_def cent_debts_def member_with_def new_member_def
        double_cents cent_value sweep.simps Let_def fsub_def fadd_def a b)
qed

end
